theory Spec2Isabelle
  imports Complex_Main "HOL-Library.Stream"
begin

section \<open>Categorical DQN (C51) policy: tianshou/policy/modelfree/c51.py\<close>

text \<open>
  The policy works on tensors of floating-point numbers. The development models a tensor
  as a nested list of real numbers, and the operations of \<open>forward\<close>,
  \<open>_target_dist\<close> and \<open>learn\<close> as the real-number formulas they evaluate: the
  rounding of those operations, overflow, infinities produced by arithmetic and NaN are
  outside the model. Two things are modelled as the program has them. The atom grid that
  the constructor builds is rounded: \<open>torch.linspace\<close> returns a tensor of
  single-precision numbers, and \<open>delta_z\<close> is computed in Python's double precision.
  And the one infinity the code writes itself, the \<open>-np.inf\<close> that marks a masked
  action, is explicit (\<open>NegInf\<close>).
\<close>

subsection \<open>Errors\<close>

datatype error =
    AssertionError string
  | RuntimeError
  | IndexError
  | ValueError
  | ZeroDivisionError

subsection \<open>Tensor primitives\<close>

text \<open>\<open>torch.clamp(x, min, max)\<close>, elementwise: \<open>min(max(x, lo), hi)\<close>.\<close>

definition clamp :: "real \<Rightarrow> real \<Rightarrow> real \<Rightarrow> real" where
  "clamp x lo hi = min (max x lo) hi"

text \<open>
  Rounding to a binary floating-point format with a significand of \<open>p\<close> bits, to the
  nearest representable number, ties to the even significand (IEEE 754's default). The
  range of the exponent is not modelled: there is no overflow and there are no
  subnormal numbers. \<open>rne\<close> rounds a real to the nearest integer, ties to even.
\<close>

definition rne :: "real \<Rightarrow> int" where
  "rne y = (let f = \<lfloor>y\<rfloor>; r = y - of_int f
            in if r < 1 / 2 then f else if 1 / 2 < r then f + 1
               else if even f then f else f + 1)"

definition round_to :: "nat \<Rightarrow> real \<Rightarrow> real" where
  "round_to p x =
     (if x = 0 then 0
      else let e = \<lfloor>log 2 \<bar>x\<bar>\<rfloor> - int p + 1
           in of_int (rne (x / 2 powr of_int e)) * 2 powr of_int e)"

text \<open>Single precision (torch's default dtype) and double precision (a Python float).\<close>

definition float32 :: "real \<Rightarrow> real" where
  "float32 = round_to 24"

definition float64 :: "real \<Rightarrow> real" where
  "float64 = round_to 53"

text \<open>
  \<open>torch.linspace(start, end, steps)\<close>: a single-precision tensor of the \<open>steps\<close>
  values \<open>start + i * (end - start) / (steps - 1)\<close>, \<open>i = 0, ..., steps - 1\<close>. Each
  value is modelled as that number rounded once to single precision; the kernel's own
  order of operations is not part of the source.
\<close>

definition linspace :: "real \<Rightarrow> real \<Rightarrow> nat \<Rightarrow> real list" where
  "linspace start stop steps =
     map (\<lambda>i. float32 (start + real i * ((stop - start) / real (steps - 1)))) [0..<steps]"

subsection \<open>The policy object\<close>

text \<open>
  The fields of the base class \<open>DQNPolicy\<close> that this file reads (\<open>model\<close>,
  \<open>model_old\<close>, \<open>_target\<close>, \<open>_freq\<close>, \<open>_cnt\<close>, \<open>eps\<close>, \<open>updating\<close>), with the
  parameters of a network as a value of type \<open>'p\<close>.
\<close>

record 'p dqn_policy =
  model :: 'p
  model_old :: 'p
  target :: bool
  freq :: int
  cnt :: int
  eps :: real
  updating :: bool

text \<open>\<open>C51Policy\<close> adds the atom grid.\<close>

record 'p c51_policy = "'p dqn_policy" +
  num_atoms :: int
  v_min :: real
  v_max :: real
  support :: "real list"
  delta_z :: real

text \<open>
  \<open>C51Policy.__init__\<close>. The call \<open>super().__init__(...)\<close> comes first; the base class is
  not part of this file, so its outcome (an error, or the initialised base fields) is the
  parameter \<open>base\<close>: an error of the base constructor leaves the constructor before the
  assertions are reached. The two assertions follow in the order of the source. Line 59
  is Python arithmetic on doubles: the difference and the quotient are each rounded to
  double precision.
\<close>

definition C51Policy_init ::
  "error + 'p dqn_policy \<Rightarrow> int \<Rightarrow> real \<Rightarrow> real \<Rightarrow> error + 'p c51_policy" where
  "C51Policy_init base n vmin vmax =
     (case base of
        Inl e \<Rightarrow> Inl e
      | Inr b \<Rightarrow>
          if \<not> n > 1 then Inl (AssertionError ''num_atoms should be greater than 1'')
          else if \<not> vmin < vmax then Inl (AssertionError ''v_max should be larger than v_min'')
          else Inr \<lparr> model = model b, model_old = model_old b, target = target b,
                     freq = freq b, cnt = cnt b, eps = eps b, updating = updating b,
                     num_atoms = n, v_min = vmin, v_max = vmax,
                     support = linspace vmin vmax (nat n),
                     delta_z = float64 (float64 (vmax - vmin) / real_of_int (n - 1)) \<rparr>)"

subsection \<open>The projection\<close>

text \<open>
  One coefficient of the projection (lines 121-123): the weight that a target value
  \<open>t\<close> gives to the atom \<open>z\<close>.
\<close>

definition proj_coeff :: "real \<Rightarrow> real \<Rightarrow> real \<Rightarrow> real" where
  "proj_coeff dz t z = clamp (1 - \<bar>t - z\<bar> / dz) 0 1"

text \<open>
  One row of \<open>target_dist\<close>: for each atom \<open>z\<close> of the support, the sum over the source
  atoms \<open>i\<close> of \<open>proj_coeff dz (T ! i) z * p ! i\<close> (the product is broadcast to
  \<open>[bsz, num_atoms, num_atoms]\<close> and summed over its last axis).
\<close>

definition project_row :: "real \<Rightarrow> real list \<Rightarrow> real list \<Rightarrow> real list \<Rightarrow> real list" where
  "project_row dz zs T p =
     map (\<lambda>z. sum_list (map (\<lambda>(t, w). proj_coeff dz t z * w) (zip T p))) zs"

subsection \<open>Batches\<close>

text \<open>
  An observation as \<open>forward\<close> reads it: \<open>inner_obs\<close> (the local \<open>obs_\<close>) is what is handed to the network
  (\<open>obs.obs\<close> when the observation has that attribute, the observation itself otherwise),
  \<open>mask\<close> is the optional action mask of shape \<open>[bsz, n_actions]\<close>
  (\<open>None\<close> when \<open>hasattr(obs, "mask")\<close> is false).
\<close>

record 'o observation =
  inner_obs :: 'o
  mask :: "bool list list option"

text \<open>
  The keys of a training batch that this file reads. \<open>weight\<close> is \<open>None\<close> when the
  batch has no such key.
\<close>

record 'o batch =
  obs :: "'o observation"
  obs_next :: "'o observation"
  act :: "int list"
  returns :: "real list list"
  weight :: "real list option"

text \<open>The batch that \<open>forward\<close> returns (the hidden state \<open>h\<close> is not modelled).\<close>

record forward_out =
  out_logits :: "real list list list"
  out_act :: "nat list"

datatype input_key = Obs | ObsNext

datatype model_key = Model | ModelOld

definition batch_get :: "'o batch \<Rightarrow> input_key \<Rightarrow> 'o observation" where
  "batch_get b k = (case k of Obs \<Rightarrow> obs b | ObsNext \<Rightarrow> obs_next b)"

definition getattr_model :: "('p, 'z) c51_policy_scheme \<Rightarrow> model_key \<Rightarrow> 'p" where
  "getattr_model s k = (case k of Model \<Rightarrow> model s | ModelOld \<Rightarrow> model_old s)"

subsection \<open>Arrays with a negative infinity, argmax, indexing\<close>

datatype npfloat = NegInf | Fin real

fun np_less :: "npfloat \<Rightarrow> npfloat \<Rightarrow> bool" where
  "np_less NegInf (Fin b) = True"
| "np_less (Fin a) (Fin b) = (a < b)"
| "np_less a NegInf = False"

text \<open>
  \<open>argmax\<close> of a one-dimensional array: the index of the first occurrence of the maximum;
  an empty array raises. \<open>argmax_from xs i best v\<close> scans the rest \<open>xs\<close> of the array
  from index \<open>i\<close>, with the best value \<open>v\<close> found so far at index \<open>best\<close>.
\<close>

fun argmax_from :: "npfloat list \<Rightarrow> nat \<Rightarrow> nat \<Rightarrow> npfloat \<Rightarrow> nat" where
  "argmax_from [] i best v = best"
| "argmax_from (x # xs) i best v =
     (if np_less v x then argmax_from xs (Suc i) i x else argmax_from xs (Suc i) best v)"

definition argmax :: "npfloat list \<Rightarrow> error + nat" where
  "argmax xs = (case xs of [] \<Rightarrow> Inl ValueError | x # xs' \<Rightarrow> Inr (argmax_from xs' 1 0 x))"

text \<open>
  \<open>q.max(dim=1)[1]\<close> for one row of \<open>q\<close>: the index of the first maximal value; torch
  refuses a reduction over an empty dimension.
\<close>

definition torch_max_index :: "real list \<Rightarrow> error + nat" where
  "torch_max_index row =
     (case argmax (map Fin row) of Inl e \<Rightarrow> Inl RuntimeError | Inr k \<Rightarrow> Inr k)"

text \<open>Applying a function that may raise to every element, stopping at the first error.\<close>

fun map_err :: "('a \<Rightarrow> error + 'b) \<Rightarrow> 'a list \<Rightarrow> error + 'b list" where
  "map_err f [] = Inr []"
| "map_err f (x # xs) =
     (case f x of
        Inl e \<Rightarrow> Inl e
      | Inr y \<Rightarrow> (case map_err f xs of Inl e \<Rightarrow> Inl e | Inr ys \<Rightarrow> Inr (y # ys)))"

text \<open>\<open>q_[~mask] = -np.inf\<close> on one row: \<open>True\<close> in the mask marks an action that is allowed.\<close>

definition mask_row :: "bool list \<Rightarrow> real list \<Rightarrow> npfloat list" where
  "mask_row m row = map (\<lambda>(ok, v). if ok then Fin v else NegInf) (zip m row)"

text \<open>Two two-dimensional arrays have the same shape.\<close>

definition same_shape :: "'a list list \<Rightarrow> 'b list list \<Rightarrow> bool" where
  "same_shape xs ys =
     (length xs = length ys \<and> list_all (\<lambda>(x, y). length x = length y) (zip xs ys))"

text \<open>An index into a dimension of size \<open>length xs\<close>: a negative index counts from the end.\<close>

definition py_index :: "'a list \<Rightarrow> int \<Rightarrow> error + 'a" where
  "py_index xs i =
     (if 0 \<le> i \<and> i < int (length xs) then Inr (xs ! nat i)
      else if i < 0 \<and> - int (length xs) \<le> i then Inr (xs ! nat (int (length xs) + i))
      else Inl IndexError)"

text \<open>
  \<open>dist[np.arange(len(a)), a, :]\<close>: row \<open>k\<close> of the result is \<open>dist[k, a[k], :]\<close>, for
  \<open>k < len(a)\<close>; an index out of range raises.
\<close>

fun pick :: "real list list list \<Rightarrow> int list \<Rightarrow> error + real list list" where
  "pick ds [] = Inr []"
| "pick [] (a # as) = Inl IndexError"
| "pick (d # ds) (a # as) =
     (case py_index d a of
        Inl e \<Rightarrow> Inl e
      | Inr row \<Rightarrow> (case pick ds as of Inl e \<Rightarrow> Inl e | Inr rows \<Rightarrow> Inr (row # rows)))"

text \<open>\<open>np.isclose(a, b)\<close> with the default tolerances \<open>rtol = 1e-5\<close>, \<open>atol = 1e-8\<close>.\<close>

definition isclose :: "real \<Rightarrow> real \<Rightarrow> bool" where
  "isclose a b = (\<bar>a - b\<bar> \<le> 1 / 10 ^ 8 + 1 / 10 ^ 5 * \<bar>b\<bar>)"

subsection \<open>forward\<close>

text \<open>
  The random numbers of \<open>np.random.rand\<close> are read from a stream \<open>g\<close>, which is passed
  along: \<open>np.random.rand()\<close> takes its head, \<open>np.random.rand(n)\<close> its next \<open>n\<close> values.

  The exploration loop (lines 99-104) over the rows of \<open>q\<close>, row \<open>i\<close> first: with
  probability \<open>eps\<close> the action of sample \<open>i\<close> is replaced by the argmax of a random
  vector, masked like \<open>q\<close>.
\<close>

fun explore ::
  "real \<Rightarrow> bool list list option \<Rightarrow> real list list \<Rightarrow> nat \<Rightarrow> nat list \<Rightarrow> real stream
     \<Rightarrow> error + (nat list \<times> real stream)" where
  "explore e m [] i a g = Inr (a, g)"
| "explore e m (qi # q) i a g =
     (if shd g < e then
        (let g1 = stl g;
             r = stake (length qi) g1;
             g2 = sdrop (length qi) g1;
             r' = (case m of None \<Rightarrow> map Fin r | Some mk \<Rightarrow> mask_row (mk ! i) r)
         in case argmax r' of
              Inl err \<Rightarrow> Inl err
            | Inr k \<Rightarrow> explore e m q (Suc i) (a[i := k]) g2)
      else explore e m q (Suc i) a (stl g))"

text \<open>Line 90, \<open>q = (dist * self.support).sum(2)\<close>: the expectation of every distribution.\<close>

definition q_values :: "real list \<Rightarrow> real list list list \<Rightarrow> real list list" where
  "q_values zs ds = map (map (\<lambda>d. sum_list (map (\<lambda>(x, z). x * z) (zip d zs)))) ds"

text \<open>
  \<open>C51Policy.forward\<close>. \<open>net\<close> is the network: from its parameters and an observation
  batch, the tensor \<open>dist\<close> of shape \<open>[bsz, n_actions, num_atoms]\<close>. The product
  \<open>dist * self.support\<close> needs the last dimension of \<open>dist\<close> to be that of the support
  (broadcasting a dimension of size one is not modelled: such shapes are reported as
  errors). The policy is returned with the result, so that what a call does to it can be
  stated.
\<close>

definition forward ::
  "('p \<Rightarrow> 'o \<Rightarrow> real list list list) \<Rightarrow> 'p c51_policy \<Rightarrow> real stream \<Rightarrow> 'o batch
     \<Rightarrow> model_key \<Rightarrow> input_key \<Rightarrow> error + (forward_out \<times> 'p c51_policy \<times> real stream)" where
  "forward net s g batch mk ik =
     (let ob = batch_get batch ik;
          dist = net (getattr_model s mk) (inner_obs ob)
      in if \<not> list_all (list_all (\<lambda>d. length d = length (support s))) dist
         then Inl RuntimeError
         else
           let q = q_values (support s) dist
           in case map_err torch_max_index q of
                Inl e \<Rightarrow> Inl e
              | Inr a0 \<Rightarrow>
                 (case (case mask ob of
                          None \<Rightarrow> Inr a0
                        | Some m \<Rightarrow>
                            if \<not> same_shape m q then Inl IndexError
                            else map_err argmax (map (\<lambda>(mr, qr). mask_row mr qr) (zip m q))) of
                    Inl e \<Rightarrow> Inl e
                  | Inr a1 \<Rightarrow>
                      if \<not> updating s \<and> \<not> isclose (eps s) 0 then
                        (case explore (eps s) (mask ob) q 0 a1 g of
                           Inl e \<Rightarrow> Inl e
                         | Inr (a2, g') \<Rightarrow> Inr (\<lparr>out_logits = dist, out_act = a2\<rparr>, s, g'))
                      else Inr (\<lparr>out_logits = dist, out_act = a1\<rparr>, s, g)))"

subsection \<open>The target distribution\<close>

text \<open>
  Lines 108-117 of \<open>C51Policy._target_dist\<close>: the value of \<open>next_dist\<close> after line 117.
  With a target network, the action comes from a first call of \<open>forward\<close> with the online
  network and the distribution from a second call with \<open>model_old\<close>; otherwise both come
  from one call.
\<close>

definition select_next_dist ::
  "('p \<Rightarrow> 'o \<Rightarrow> real list list list) \<Rightarrow> 'p c51_policy \<Rightarrow> real stream \<Rightarrow> 'o batch
     \<Rightarrow> error + (real list list \<times> 'p c51_policy \<times> real stream)" where
  "select_next_dist net s g batch =
     (case (if target s then
              (case forward net s g batch Model ObsNext of
                 Inl e \<Rightarrow> Inl e
               | Inr (b1, s1, g1) \<Rightarrow>
                   (case forward net s1 g1 batch ModelOld ObsNext of
                      Inl e \<Rightarrow> Inl e
                    | Inr (b2, s2, g2) \<Rightarrow> Inr (out_act b1, out_logits b2, s2, g2)))
            else
              (case forward net s g batch Model ObsNext of
                 Inl e \<Rightarrow> Inl e
               | Inr (next_b, s1, g1) \<Rightarrow> Inr (out_act next_b, out_logits next_b, s1, g1))) of
        Inl e \<Rightarrow> Inl e
      | Inr (a, next_dist, s', g') \<Rightarrow>
          (case pick next_dist (map int a) of
             Inl e \<Rightarrow> Inl e
           | Inr nd \<Rightarrow> Inr (nd, s', g')))"

text \<open>
  \<open>C51Policy._target_dist\<close>: lines 118-124 on the selected \<open>next_dist\<close>. The shapes of
  \<open>batch.returns\<close> and of \<open>next_dist\<close> must agree.
\<close>

definition target_dist ::
  "('p \<Rightarrow> 'o \<Rightarrow> real list list list) \<Rightarrow> 'p c51_policy \<Rightarrow> real stream \<Rightarrow> 'o batch
     \<Rightarrow> error + (real list list \<times> 'p c51_policy \<times> real stream)" where
  "target_dist net s g batch =
     (case select_next_dist net s g batch of
        Inl e \<Rightarrow> Inl e
      | Inr (next_dist, s', g') \<Rightarrow>
          let target_support = map (map (\<lambda>r. clamp r (v_min s') (v_max s'))) (returns batch)
          in if \<not> same_shape target_support next_dist then Inl RuntimeError
             else Inr (map (\<lambda>(T, p). project_row (delta_z s') (support s') T p)
                           (zip target_support next_dist), s', g'))"

subsection \<open>learn\<close>

definition mean :: "real list \<Rightarrow> real" where
  "mean xs = sum_list xs / real (length xs)"

text \<open>
  The per-sample cross-entropy of line 136, for one sample: \<open>torch.log\<close> is the natural
  logarithm, taken of \<open>curr_dist + 1e-8\<close>.
\<close>

definition cross_entropy_row :: "real list \<Rightarrow> real list \<Rightarrow> real" where
  "cross_entropy_row t c = - sum_list (map (\<lambda>(tj, cj). tj * ln (cj + 1 / 10 ^ 8)) (zip t c))"

text \<open>
  \<open>C51Policy.learn\<close>. Two methods of collaborators are parameters: \<open>sync\<close> gives the
  parameters that \<open>sync_weight\<close> (of the base class) leaves in \<open>model_old\<close>, from those of
  \<open>model\<close> and \<open>model_old\<close>; \<open>optim\<close> gives the parameters of \<open>model\<close> after
  \<open>zero_grad\<close>, \<open>backward\<close> and \<open>step\<close>, from the old ones, the batch and the target
  distribution. The result is the loss, the batch as the call leaves it, the policy and
  the random stream.
\<close>

definition learn ::
  "('p \<Rightarrow> 'o \<Rightarrow> real list list list) \<Rightarrow> ('p \<Rightarrow> 'p \<Rightarrow> 'p)
     \<Rightarrow> ('p \<Rightarrow> 'o batch \<Rightarrow> real list list \<Rightarrow> 'p) \<Rightarrow> 'p c51_policy \<Rightarrow> real stream \<Rightarrow> 'o batch
     \<Rightarrow> error + (real \<times> 'o batch \<times> 'p c51_policy \<times> real stream)" where
  "learn net sync optim s g batch =
     (if target s \<and> freq s = 0 then Inl ZeroDivisionError
      else
        let s0 = (if target s \<and> cnt s mod freq s = 0
                  then s\<lparr>model_old := sync (model s) (model_old s)\<rparr> else s)
        in case target_dist net s0 g batch of
             Inl e \<Rightarrow> Inl e
           | Inr (td, s1, g1) \<Rightarrow>
               let w = weight batch;
                   batch1 = batch\<lparr>weight := None\<rparr>
               in (case forward net s1 g1 batch1 Model Obs of
                    Inl e \<Rightarrow> Inl e
                  | Inr (out, s2, g2) \<Rightarrow>
                      (case pick (out_logits out) (act batch1) of
                         Inl e \<Rightarrow> Inl e
                       | Inr curr_dist \<Rightarrow>
                           if \<not> same_shape td curr_dist
                              \<or> (case w of None \<Rightarrow> False | Some ws \<Rightarrow> length ws \<noteq> length td)
                           then Inl RuntimeError
                           else
                             let cross_entropy =
                                   map (\<lambda>(t, c). cross_entropy_row t c) (zip td curr_dist);
                                 loss = mean (case w of
                                                None \<Rightarrow> map (\<lambda>c. c * 1) cross_entropy
                                              | Some ws \<Rightarrow>
                                                  map (\<lambda>(c, x). c * x) (zip cross_entropy ws));
                                 batch2 = batch1\<lparr>weight := Some cross_entropy\<rparr>;
                                 s3 = s2\<lparr>model := optim (model s2) batch td,
                                        cnt := cnt s2 + 1\<rparr>
                             in Inr (loss, batch2, s3, g2))))"

subsection \<open>Auxiliary notions of the proofs\<close>

text \<open>What the constructor establishes about the atom grid, and no method changes.\<close>

definition grid_ok :: "'p c51_policy \<Rightarrow> bool" where
  "grid_ok s =
     (1 < num_atoms s \<and> v_min s < v_max s
      \<and> support s = linspace (v_min s) (v_max s) (nat (num_atoms s))
      \<and> delta_z s = float64 (float64 (v_max s - v_min s) / real_of_int (num_atoms s - 1)))"



text \<open>
  An action \<open>x\<close> respects row \<open>b\<close> of a mask: when the row allows some action, it
  allows \<open>x\<close>.
\<close>

definition mask_allows :: "bool list list \<Rightarrow> nat \<Rightarrow> nat \<Rightarrow> bool" where
  "mask_allows m b x = ((\<exists>y<length (m ! b). m ! b ! y) \<longrightarrow> x < length (m ! b) \<and> m ! b ! x)"

text \<open>
  Shapes: a tensor of shape \<open>[B, A, N]\<close> and a matrix of shape \<open>[B, A]\<close>, as nested
  lists.
\<close>

definition tensor3 :: "nat \<Rightarrow> nat \<Rightarrow> nat \<Rightarrow> real list list list \<Rightarrow> bool" where
  "tensor3 B A N ds =
     (length ds = B \<and> list_all (\<lambda>row. length row = A \<and> list_all (\<lambda>d. length d = N) row) ds)"

definition matrix :: "nat \<Rightarrow> nat \<Rightarrow> 'a list list \<Rightarrow> bool" where
  "matrix B A xs = (length xs = B \<and> list_all (\<lambda>row. length row = A) xs)"


text \<open>The loss as the specification words it: the mean of the plain cross-entropy.\<close>

definition spec_cross_entropy_row :: "real list \<Rightarrow> real list \<Rightarrow> real" where
  "spec_cross_entropy_row t c = - sum_list (map (\<lambda>(tj, cj). tj * ln cj) (zip t c))"

definition spec_loss :: "real list list \<Rightarrow> real list list \<Rightarrow> real" where
  "spec_loss td curr_dist = mean (map (\<lambda>(t, c). spec_cross_entropy_row t c) (zip td curr_dist))"

subsection \<open>Example inputs\<close>

text \<open>
  A policy with two atoms on \<open>[0, 1]\<close>, no target network and no exploration; the
  parameters of a network are a number (\<open>0\<close> for \<open>model\<close>, \<open>1\<close> for \<open>model_old\<close>).
\<close>

definition ex_base :: "nat dqn_policy" where
  "ex_base = \<lparr>model = 0, model_old = 1, target = False, freq = 0, cnt = 0, eps = 0,
               updating = False\<rparr>"

definition ex_policy :: "nat c51_policy" where
  "ex_policy = \<lparr>model = 0, model_old = 1, target = False, freq = 0, cnt = 0, eps = 0,
                 updating = False, num_atoms = 2, v_min = 0, v_max = 1, support = [0, 1],
                 delta_z = 1\<rparr>"

text \<open>
  A network with one sample, two actions and two atoms; the answer depends on the
  parameters only.
\<close>

definition ex_net :: "nat \<Rightarrow> nat \<Rightarrow> real list list list" where
  "ex_net p x = (if p = 0 then [[[1 / 2, 1 / 2], [1, 0]]] else [[[1 / 4, 3 / 4], [0, 1]]])"

definition ex_batch :: "nat batch" where
  "ex_batch = \<lparr>obs = \<lparr>inner_obs = 0, mask = None\<rparr>,
                obs_next = \<lparr>inner_obs = 1, mask = None\<rparr>,
                act = [0], returns = [[1 / 4, 2]], weight = Some [2]\<rparr>"

text \<open>The same batch with the first action masked out in \<open>obs\<close>.\<close>

definition ex_batch_masked :: "nat batch" where
  "ex_batch_masked = ex_batch\<lparr>obs := \<lparr>inner_obs = 0, mask = Some [[False, True]]\<rparr>\<rparr>"

text \<open>The same policy, exploring with \<open>eps = 1 / 2\<close>, and with a target network.\<close>

definition ex_policy_explore :: "nat c51_policy" where
  "ex_policy_explore = ex_policy\<lparr>eps := 1 / 2\<rparr>"

definition ex_policy_target :: "nat c51_policy" where
  "ex_policy_target = ex_policy\<lparr>target := True, freq := 1\<rparr>"




text \<open>
  Collaborators for \<open>learn\<close>: \<open>sync_weight\<close> copies the online parameters, the
  optimiser moves them.
\<close>

definition ex_sync :: "nat \<Rightarrow> nat \<Rightarrow> nat" where
  "ex_sync p q = p"

definition ex_optim :: "nat \<Rightarrow> nat batch \<Rightarrow> real list list \<Rightarrow> nat" where
  "ex_optim p b td = p + 2"

section \<open>Properties\<close>

subsection \<open>The grid\<close>

lemma linspace_length: "length (linspace a b n) = n"
  by (simp add: linspace_def)



lemma init_grid_ok:
  assumes "C51Policy_init base n vmin vmax = Inr s"
  shows "grid_ok s \<and> num_atoms s = n \<and> v_min s = vmin \<and> v_max s = vmax"
  using assms
  by (auto simp: C51Policy_init_def grid_ok_def split: sum.splits if_splits)

lemma grid_ok_length: "grid_ok s \<Longrightarrow> length (support s) = nat (num_atoms s)"
  by (simp add: grid_ok_def linspace_length)


subsection \<open>Rounding\<close>

lemma round_to_eval:
  assumes "2 powr of_int k \<le> \<bar>x\<bar>" and "\<bar>x\<bar> < 2 powr of_int (k + 1)"
  shows "round_to p x
           = of_int (rne (x / 2 powr of_int (k - int p + 1))) * 2 powr of_int (k - int p + 1)"
proof -
  have pos: "0 < \<bar>x\<bar>" using assms(1) by (smt (verit) powr_gt_zero)
  then have "\<lfloor>log 2 \<bar>x\<bar>\<rfloor> = k"
    using assms by (subst floor_log_eq_powr_iff) simp_all
  moreover have "x \<noteq> 0" using pos by simp
  ultimately show ?thesis by (simp add: round_to_def Let_def)
qed

lemma float32_0: "float32 0 = 0"
  by (simp add: float32_def round_to_def)

lemma float32_1: "float32 1 = 1"
  unfolding float32_def
  by (subst round_to_eval [where k = 0]) (simp_all add: rne_def powr_neg_numeral)

lemma float64_1: "float64 1 = 1"
  unfolding float64_def
  by (subst round_to_eval [where k = 0]) (simp_all add: rne_def powr_neg_numeral)








subsection \<open>Exact grids\<close>








subsection \<open>The hat function is a partition of unity\<close>










lemma ex_policy_init: "C51Policy_init (Inr ex_base) 2 0 1 = Inr ex_policy"
  by (simp add: C51Policy_init_def ex_base_def ex_policy_def linspace_def upt_rec
        float32_0 float32_1 float64_1)

lemma ex_policy_grid_ok: "grid_ok ex_policy"
  using init_grid_ok [OF ex_policy_init] by simp


subsection \<open>Argmax, indexing and the exploration loop\<close>

lemma np_less_irrefl: "\<not> np_less x x"
  by (cases x) simp_all

lemma np_less_trans: "np_less x y \<Longrightarrow> np_less y z \<Longrightarrow> np_less x z"
  by (cases x; cases y; cases z) simp_all

lemma np_less_Fin_NegInf: "\<not> np_less x (Fin r) \<Longrightarrow> x \<noteq> NegInf"
  by (cases x) simp_all

lemma argmax_from_spec:
  assumes "best < length pre" and "pre ! best = v"
    and "\<forall>j<length pre. \<not> np_less v (pre ! j)" and "i = length pre"
  shows "argmax_from xs i best v < length (pre @ xs)
         \<and> (\<forall>j<length (pre @ xs). \<not> np_less ((pre @ xs) ! argmax_from xs i best v) ((pre @ xs) ! j))"
  using assms
proof (induction xs arbitrary: pre best v i)
  case Nil
  then show ?case by simp
next
  case (Cons x xs)
  show ?case
  proof (cases "np_less v x")
    case True
    have a: "i < length (pre @ [x])" using Cons.prems by simp
    have b: "(pre @ [x]) ! i = x" using Cons.prems by simp
    have c: "\<forall>j<length (pre @ [x]). \<not> np_less x ((pre @ [x]) ! j)"
    proof (intro allI impI)
      fix j assume j: "j < length (pre @ [x])"
      show "\<not> np_less x ((pre @ [x]) ! j)"
      proof (cases "j < length pre")
        case True
        then have "\<not> np_less v (pre ! j)" using Cons.prems by simp
        then have "\<not> np_less x (pre ! j)" using \<open>np_less v x\<close> np_less_trans by blast
        then show ?thesis using True by (simp add: nth_append)
      next
        case False
        then have "j = length pre" using j by simp
        then show ?thesis by (simp add: np_less_irrefl)
      qed
    qed
    have d: "Suc i = length (pre @ [x])" using Cons.prems by simp
    from Cons.IH [OF a b c d] True show ?thesis by simp
  next
    case False
    have a: "best < length (pre @ [x])" using Cons.prems by simp
    have b: "(pre @ [x]) ! best = v" using Cons.prems by (simp add: nth_append)
    have c: "\<forall>j<length (pre @ [x]). \<not> np_less v ((pre @ [x]) ! j)"
      using Cons.prems False by (auto simp: nth_append less_Suc_eq)
    have d: "Suc i = length (pre @ [x])" using Cons.prems by simp
    from Cons.IH [OF a b c d] False show ?thesis by simp
  qed
qed

lemma argmax_Inr:
  assumes "argmax xs = Inr k"
  shows "k < length xs \<and> (\<forall>j<length xs. \<not> np_less (xs ! k) (xs ! j))"
proof (cases xs)
  case Nil
  then show ?thesis using assms by (simp add: argmax_def)
next
  case (Cons x xs')
  then have k: "k = argmax_from xs' 1 0 x" using assms by (simp add: argmax_def)
  have "argmax_from xs' 1 0 x < length ([x] @ xs')
         \<and> (\<forall>j<length ([x] @ xs'). \<not> np_less (([x] @ xs') ! argmax_from xs' 1 0 x) (([x] @ xs') ! j))"
    by (rule argmax_from_spec) (simp_all add: np_less_irrefl)
  then show ?thesis using Cons k by simp
qed

lemma argmax_nonempty: "xs \<noteq> [] \<Longrightarrow> \<exists>k. argmax xs = Inr k"
  by (cases xs) (simp_all add: argmax_def)

lemma torch_max_index_Inr:
  assumes "torch_max_index row = Inr k"
  shows "k < length row \<and> (\<forall>j<length row. row ! j \<le> row ! k)"
proof -
  from assms have "argmax (map Fin row) = Inr k"
    by (auto simp: torch_max_index_def split: sum.splits)
  from argmax_Inr [OF this] show ?thesis
    by (auto simp: not_less)
qed

lemma mask_row_length: "length (mask_row m r) = min (length m) (length r)"
  by (simp add: mask_row_def)

lemma mask_row_nth:
  "i < length m \<Longrightarrow> i < length r \<Longrightarrow> mask_row m r ! i = (if m ! i then Fin (r ! i) else NegInf)"
  by (simp add: mask_row_def)

lemma argmax_mask_row:
  assumes "argmax (mask_row m r) = Inr k" and "length m = length r"
    and "a < length m" and "m ! a"
  shows "k < length m \<and> m ! k"
proof -
  from argmax_Inr [OF assms(1)] assms(2)
  have k: "k < length m" and mx: "\<forall>j<length m. \<not> np_less (mask_row m r ! k) (mask_row m r ! j)"
    by (simp_all add: mask_row_length)
  from mx assms have "\<not> np_less (mask_row m r ! k) (Fin (r ! a))"
    by (metis mask_row_nth)
  then have "mask_row m r ! k \<noteq> NegInf" by (rule np_less_Fin_NegInf)
  then have "m ! k" using k assms(2) by (simp add: mask_row_nth split: if_splits)
  with k show ?thesis by simp
qed

lemma map_err_Inr:
  "map_err f xs = Inr ys \<Longrightarrow> length ys = length xs \<and> (\<forall>i<length xs. f (xs ! i) = Inr (ys ! i))"
proof (induction xs arbitrary: ys)
  case Nil
  then show ?case by simp
next
  case (Cons x xs)
  then obtain y ys' where y: "f x = Inr y" and ys': "map_err f xs = Inr ys'" and e: "ys = y # ys'"
    by (auto split: sum.splits)
  from Cons.IH [OF ys'] y e show ?case
    by (auto simp: nth_Cons split: nat.splits)
qed

lemma py_index_nat: "py_index d (int a) = Inr r \<Longrightarrow> a < length d \<and> r = d ! a"
  by (auto simp: py_index_def split: if_splits)

lemma pick_nat_Inr:
  "pick ds (map int a) = Inr nd \<Longrightarrow>
     length nd = length a \<and> length a \<le> length ds
     \<and> (\<forall>b<length a. a ! b < length (ds ! b) \<and> nd ! b = ds ! b ! (a ! b))"
proof (induction ds "map int a" arbitrary: a nd rule: pick.induct)
  case (1 ds)
  then show ?case by simp
next
  case (2 x xs)
  then show ?case by (metis pick.simps(2) sum.distinct(1))
next
  case (3 d ds x xs)
  then obtain a0 a' where a: "a = a0 # a'" and x: "x = int a0" and xs: "xs = map int a'"
    by (cases a) auto
  from 3(3) a obtain row rows where row: "py_index d (int a0) = Inr row"
    and rows: "pick ds (map int a') = Inr rows" and nd: "nd = row # rows"
    by (auto split: sum.splits)
  have ih: "length rows = length a' \<and> length a' \<le> length ds
     \<and> (\<forall>b<length a'. a' ! b < length (ds ! b) \<and> rows ! b = ds ! b ! (a' ! b))"
    using 3(1) [of row a' rows] row rows x xs by simp
  from py_index_nat [OF row] ih a nd show ?case
    by (auto simp: nth_Cons split: nat.splits)
qed

lemma explore_length:
  "explore e m q i a g = Inr (a', g') \<Longrightarrow> length a' = length a"
proof (induction q arbitrary: i a g)
  case Nil
  then show ?case by simp
next
  case (Cons qi q)
  show ?case
  proof (cases "shd g < e")
    case True
    with Cons.prems obtain k where
      "explore e m q (Suc i) (a[i := k]) (sdrop (length qi) (stl g)) = Inr (a', g')"
      by (auto simp: Let_def split: sum.splits)
    from Cons.IH [OF this] show ?thesis by simp
  next
    case False
    with Cons.prems have "explore e m q (Suc i) a (stl g) = Inr (a', g')" by simp
    from Cons.IH [OF this] show ?thesis .
  qed
qed

lemma explore_mask:
  assumes "explore e (Some m) q i a g = Inr (a', g')"
    and "length a = i + length q"
    and "\<forall>k<length q. length (q ! k) = length (m ! (i + k))"
    and "\<forall>b<length a. mask_allows m b (a ! b)"
  shows "\<forall>b<length a. mask_allows m b (a' ! b)"
  using assms
proof (induction q arbitrary: i a g)
  case Nil
  then show ?case by simp
next
  case (Cons qi q)
  have shape: "\<forall>k<length q. length (q ! k) = length (m ! (Suc i + k))"
    using Cons.prems(3) by force
  have qi: "length qi = length (m ! i)" using Cons.prems(3) by force
  show ?case
  proof (cases "shd g < e")
    case True
    with Cons.prems(1) obtain k where
      k: "argmax (mask_row (m ! i) (stake (length qi) (stl g))) = Inr k"
      and rest: "explore e (Some m) q (Suc i) (a[i := k]) (sdrop (length qi) (stl g)) = Inr (a', g')"
      by (auto simp: Let_def split: sum.splits)
    have len: "length (a[i := k]) = Suc i + length q" using Cons.prems(2) by simp
    have ki: "mask_allows m i k"
      unfolding mask_allows_def
    proof
      assume "\<exists>y<length (m ! i). m ! i ! y"
      then obtain y where "y < length (m ! i)" "m ! i ! y" by blast
      with argmax_mask_row [OF k] qi show "k < length (m ! i) \<and> m ! i ! k" by simp
    qed
    have inv: "\<forall>b<length (a[i := k]). mask_allows m b (a[i := k] ! b)"
      using Cons.prems(2,4) ki by (auto simp: nth_list_update)
    from Cons.IH [OF rest len shape inv] show ?thesis by simp
  next
    case False
    with Cons.prems(1) have rest: "explore e (Some m) q (Suc i) a (stl g) = Inr (a', g')" by simp
    have len: "length a = Suc i + length q" using Cons.prems(2) by simp
    from Cons.IH [OF rest len shape Cons.prems(4)] show ?thesis .
  qed
qed

lemma same_shape_nth:
  "same_shape xs ys \<Longrightarrow> length xs = length ys \<and> (\<forall>i<length xs. length (xs ! i) = length (ys ! i))"
  by (auto simp: same_shape_def list_all_length)

lemma sum_list_zip_nth:
  fixes f :: "'a \<times> 'b \<Rightarrow> real"
  assumes "length xs = n" "length ys = n"
  shows "sum_list (map f (zip xs ys)) = (\<Sum>i<n. f (xs ! i, ys ! i))"
proof -
  have "sum_list (map f (zip xs ys)) = (\<Sum>i = 0..<length (map f (zip xs ys)). map f (zip xs ys) ! i)"
    by (rule sum_list_sum_nth)
  also have "\<dots> = (\<Sum>i = 0..<n. f (xs ! i, ys ! i))"
    using assms by (intro sum.cong) simp_all
  finally show ?thesis by (simp add: atLeast0LessThan)
qed

subsection \<open>What forward returns\<close>

lemma forward_Inr:
  assumes "forward net s g batch mk ik = Inr (out, s', g')"
  shows "s' = s
       \<and> out_logits out = net (getattr_model s mk) (inner_obs (batch_get batch ik))
       \<and> list_all (list_all (\<lambda>d. length d = length (support s))) (out_logits out)
       \<and> (\<exists>a0 a1.
             map_err torch_max_index (q_values (support s) (out_logits out)) = Inr a0
           \<and> (case mask (batch_get batch ik) of
                 None \<Rightarrow> a1 = a0
               | Some m \<Rightarrow> same_shape m (q_values (support s) (out_logits out))
                   \<and> map_err argmax (map (\<lambda>(mr, qr). mask_row mr qr)
                         (zip m (q_values (support s) (out_logits out)))) = Inr a1)
           \<and> (if \<not> updating s \<and> \<not> isclose (eps s) 0
               then explore (eps s) (mask (batch_get batch ik))
                      (q_values (support s) (out_logits out)) 0 a1 g = Inr (out_act out, g')
               else out_act out = a1 \<and> g' = g))"
  using assms unfolding forward_def Let_def
  by (auto split: if_splits sum.splits option.splits prod.splits)

lemma q_values_length: "length (q_values zs ds) = length ds"
  by (simp add: q_values_def)

lemma q_values_row_length: "b < length ds \<Longrightarrow> length (q_values zs ds ! b) = length (ds ! b)"
  by (simp add: q_values_def)

lemma q_values_nth:
  assumes "b < length ds" "a < length (ds ! b)" "length (ds ! b ! a) = length zs"
  shows "q_values zs ds ! b ! a = (\<Sum>j<length zs. ds ! b ! a ! j * zs ! j)"
proof -
  have "q_values zs ds ! b ! a = sum_list (map (\<lambda>(x, z). x * z) (zip (ds ! b ! a) zs))"
    using assms by (simp add: q_values_def)
  also have "\<dots> = (\<Sum>j<length zs. (\<lambda>(x, z). x * z) (ds ! b ! a ! j, zs ! j))"
    using assms(3) by (intro sum_list_zip_nth) simp_all
  finally show ?thesis by simp
qed

lemma forward_act_length:
  assumes "forward net s g batch mk ik = Inr (out, s', g')"
  shows "length (out_act out) = length (out_logits out)"
proof -
  from forward_Inr [OF assms] obtain a0 a1 where
    a0: "map_err torch_max_index (q_values (support s) (out_logits out)) = Inr a0"
    and a1: "case mask (batch_get batch ik) of
                 None \<Rightarrow> a1 = a0
               | Some m \<Rightarrow> same_shape m (q_values (support s) (out_logits out))
                   \<and> map_err argmax (map (\<lambda>(mr, qr). mask_row mr qr)
                         (zip m (q_values (support s) (out_logits out)))) = Inr a1"
    and a2: "if \<not> updating s \<and> \<not> isclose (eps s) 0
               then explore (eps s) (mask (batch_get batch ik))
                      (q_values (support s) (out_logits out)) 0 a1 g = Inr (out_act out, g')
               else out_act out = a1 \<and> g' = g"
    by blast
  have l0: "length a0 = length (out_logits out)"
    using map_err_Inr [OF a0] by (simp add: q_values_length)
  have l1: "length a1 = length (out_logits out)"
  proof (cases "mask (batch_get batch ik)")
    case None
    then show ?thesis using a1 l0 by simp
  next
    case (Some m)
    then have sh: "same_shape m (q_values (support s) (out_logits out))"
      and me: "map_err argmax (map (\<lambda>(mr, qr). mask_row mr qr)
                 (zip m (q_values (support s) (out_logits out)))) = Inr a1"
      using a1 by simp_all
    from map_err_Inr [OF me] same_shape_nth [OF sh] show ?thesis
      by (simp add: q_values_length)
  qed
  show ?thesis
  proof (cases "\<not> updating s \<and> \<not> isclose (eps s) 0")
    case True
    then have "explore (eps s) (mask (batch_get batch ik))
                 (q_values (support s) (out_logits out)) 0 a1 g = Inr (out_act out, g')"
      using a2 by simp
    from explore_length [OF this] l1 show ?thesis by simp
  next
    case False
    then show ?thesis using a2 l1 by auto
  qed
qed

lemma forward_mask_allows:
  assumes fw: "forward net s g batch mk ik = Inr (out, s', g')"
    and msk: "mask (batch_get batch ik) = Some m"
  shows "\<forall>b<length (out_act out). mask_allows m b (out_act out ! b)"
proof -
  let ?q = "q_values (support s) (out_logits out)"
  from forward_Inr [OF fw] obtain a0 a1 where
    c: "case mask (batch_get batch ik) of
          None \<Rightarrow> a1 = a0
        | Some m \<Rightarrow> same_shape m ?q
            \<and> map_err argmax (map (\<lambda>(mr, qr). mask_row mr qr) (zip m ?q)) = Inr a1"
    and a2': "if \<not> updating s \<and> \<not> isclose (eps s) 0
               then explore (eps s) (mask (batch_get batch ik)) ?q 0 a1 g
                      = Inr (out_act out, g')
               else out_act out = a1 \<and> g' = g"
    by blast
  from c msk have sh: "same_shape m ?q"
    and a1: "map_err argmax (map (\<lambda>(mr, qr). mask_row mr qr) (zip m ?q)) = Inr a1"
    by simp_all
  from a2' msk have a2: "if \<not> updating s \<and> \<not> isclose (eps s) 0
               then explore (eps s) (Some m) ?q 0 a1 g = Inr (out_act out, g')
               else out_act out = a1 \<and> g' = g"
    by (auto split: if_splits)
  from same_shape_nth [OF sh]
  have lm: "length m = length ?q" and rows: "\<forall>i<length m. length (m ! i) = length (?q ! i)"
    by simp_all
  from map_err_Inr [OF a1] lm
  have l1: "length a1 = length ?q"
    and each: "\<forall>i<length ?q. argmax (mask_row (m ! i) (?q ! i)) = Inr (a1 ! i)"
    by simp_all
  have inv: "\<forall>b<length a1. mask_allows m b (a1 ! b)"
  proof (intro allI impI)
    fix b assume b: "b < length a1"
    then have am: "argmax (mask_row (m ! b) (?q ! b)) = Inr (a1 ! b)" using each l1 by simp
    have eq: "length (m ! b) = length (?q ! b)" using rows b l1 lm by simp
    show "mask_allows m b (a1 ! b)"
      unfolding mask_allows_def using argmax_mask_row [OF am eq] by blast
  qed
  show ?thesis
  proof (cases "\<not> updating s \<and> \<not> isclose (eps s) 0")
    case True
    then have ex: "explore (eps s) (Some m) ?q 0 a1 g = Inr (out_act out, g')"
      using a2 by simp
    have "\<forall>b<length a1. mask_allows m b (out_act out ! b)"
      using ex
    proof (rule explore_mask)
      show "length a1 = 0 + length ?q" using l1 by simp
      show "\<forall>k<length ?q. length (?q ! k) = length (m ! (0 + k))" using rows lm by simp
      show "\<forall>b<length a1. mask_allows m b (a1 ! b)" by (rule inv)
    qed
    then show ?thesis using explore_length [OF ex] by simp
  next
    case False
    then show ?thesis using a2 inv by auto
  qed
qed

subsection \<open>The projection of one row\<close>




lemma project_row_length: "length (project_row dz zs T p) = length zs"
  by (simp add: project_row_def)

lemma project_row_nth:
  assumes "j < length zs" "length T = n" "length p = n"
  shows "project_row dz zs T p ! j = (\<Sum>i<n. proj_coeff dz (T ! i) (zs ! j) * p ! i)"
proof -
  have "project_row dz zs T p ! j
          = sum_list (map (\<lambda>(t, w). proj_coeff dz t (zs ! j) * w) (zip T p))"
    using assms(1) by (simp add: project_row_def)
  also have "\<dots> = (\<Sum>i<n. (\<lambda>(t, w). proj_coeff dz t (zs ! j) * w) (T ! i, p ! i))"
    using assms(2,3) by (rule sum_list_zip_nth)
  finally show ?thesis by simp
qed



subsection \<open>What the target distribution is\<close>

lemma forward_state:
  "forward net s g batch mk ik = Inr (out, s', g') \<Longrightarrow> s' = s"
  by (drule forward_Inr) blast

lemma forward_logits:
  "forward net s g batch mk ik = Inr (out, s', g') \<Longrightarrow>
     out_logits out = net (getattr_model s mk) (inner_obs (batch_get batch ik))"
  by (drule forward_Inr) blast

lemma forward_shape:
  "forward net s g batch mk ik = Inr (out, s', g') \<Longrightarrow>
     list_all (list_all (\<lambda>d. length d = length (support s))) (out_logits out)"
  by (drule forward_Inr) blast

lemma select_next_dist_Inr:
  assumes "select_next_dist net s g batch = Inr (nd, s', g')"
  shows "s' = s
       \<and> (\<exists>out1 g1. forward net s g batch Model ObsNext = Inr (out1, s, g1)
            \<and> length nd = length (out_act out1)
            \<and> list_all (list_all (\<lambda>d. length d = length (support s)))
                 (net (if target s then model_old s else model s) (inner_obs (obs_next batch)))
            \<and> length (out_act out1)
                 \<le> length (net (if target s then model_old s else model s)
                             (inner_obs (obs_next batch)))
            \<and> (\<forall>b<length (out_act out1).
                  out_act out1 ! b
                    < length (net (if target s then model_old s else model s)
                                (inner_obs (obs_next batch)) ! b)
                \<and> nd ! b = net (if target s then model_old s else model s)
                                (inner_obs (obs_next batch)) ! b ! (out_act out1 ! b)))"
proof (cases "target s")
  case True
  with assms obtain b1 s1 g1 b2 s2 g2 where
    f1: "forward net s g batch Model ObsNext = Inr (b1, s1, g1)"
    and f2: "forward net s1 g1 batch ModelOld ObsNext = Inr (b2, s2, g2)"
    and pk: "pick (out_logits b2) (map int (out_act b1)) = Inr nd"
    and e: "s' = s2" "g' = g2"
    unfolding select_next_dist_def
    by (auto split: sum.splits prod.splits)
  have s1: "s1 = s" using f1 by (rule forward_state)
  have s2: "s2 = s" using forward_state [OF f2] s1 by simp
  have l2: "out_logits b2 = net (model_old s) (inner_obs (obs_next batch))"
    using forward_logits [OF f2] s1 by (simp add: getattr_model_def batch_get_def)
  have sh: "list_all (list_all (\<lambda>d. length d = length (support s))) (out_logits b2)"
    using forward_shape [OF f2] s1 by simp
  from pick_nat_Inr [OF pk] f1 s1 s2 e l2 sh True show ?thesis by auto
next
  case False
  with assms obtain b1 s1 g1 where
    f1: "forward net s g batch Model ObsNext = Inr (b1, s1, g1)"
    and pk: "pick (out_logits b1) (map int (out_act b1)) = Inr nd"
    and e: "s' = s1" "g' = g1"
    unfolding select_next_dist_def
    by (auto split: sum.splits prod.splits)
  have s1: "s1 = s" using f1 by (rule forward_state)
  have l1: "out_logits b1 = net (model s) (inner_obs (obs_next batch))"
    using forward_logits [OF f1] by (simp add: getattr_model_def batch_get_def)
  have sh: "list_all (list_all (\<lambda>d. length d = length (support s))) (out_logits b1)"
    using f1 by (rule forward_shape)
  from pick_nat_Inr [OF pk] f1 s1 e l1 sh False show ?thesis by auto
qed

lemma target_dist_Inr:
  assumes "target_dist net s g batch = Inr (td, s', g')"
  shows "\<exists>nd. select_next_dist net s g batch = Inr (nd, s', g')
           \<and> same_shape (map (map (\<lambda>r. clamp r (v_min s') (v_max s'))) (returns batch)) nd
           \<and> td = map (\<lambda>(T, p). project_row (delta_z s') (support s') T p)
                     (zip (map (map (\<lambda>r. clamp r (v_min s') (v_max s'))) (returns batch)) nd)"
  using assms unfolding target_dist_def Let_def
  by (auto split: sum.splits prod.splits if_splits)

lemma target_dist_rows:
  assumes td: "target_dist net s g batch = Inr (td, s', g')"
  shows "\<exists>nd. select_next_dist net s g batch = Inr (nd, s, g') \<and> s' = s
           \<and> length nd = length (returns batch) \<and> length td = length (returns batch)
           \<and> (\<forall>b<length td.
                 length (returns batch ! b) = length (nd ! b)
               \<and> td ! b = project_row (delta_z s) (support s)
                            (map (\<lambda>r. clamp r (v_min s) (v_max s)) (returns batch ! b)) (nd ! b))"
proof -
  from target_dist_Inr [OF td] obtain nd where
    sel: "select_next_dist net s g batch = Inr (nd, s', g')"
    and sh: "same_shape (map (map (\<lambda>r. clamp r (v_min s') (v_max s'))) (returns batch)) nd"
    and eq: "td = map (\<lambda>(T, p). project_row (delta_z s') (support s') T p)
                     (zip (map (map (\<lambda>r. clamp r (v_min s') (v_max s'))) (returns batch)) nd)"
    by blast
  have s': "s' = s" using select_next_dist_Inr [OF sel] by blast
  from same_shape_nth [OF sh]
  have l: "length (returns batch) = length nd"
    and r: "\<forall>i<length (returns batch). length (returns batch ! i) = length (nd ! i)"
    by simp_all
  have lt: "length td = length (returns batch)" using eq l by simp
  have "td ! b = project_row (delta_z s) (support s)
                   (map (\<lambda>r. clamp r (v_min s) (v_max s)) (returns batch ! b)) (nd ! b)"
    if "b < length td" for b
    using that lt l unfolding eq s' by simp
  with sel s' l lt r show ?thesis by auto
qed

subsection \<open>What learn returns\<close>

lemma py_index_mem: "py_index d i = Inr r \<Longrightarrow> r \<in> set d"
  by (auto simp: py_index_def split: if_splits)

lemma pick_Inr:
  "pick ds as = Inr nd \<Longrightarrow>
     length nd = length as \<and> length as \<le> length ds
     \<and> (\<forall>b<length as. py_index (ds ! b) (as ! b) = Inr (nd ! b))"
proof (induction ds as arbitrary: nd rule: pick.induct)
  case (1 ds)
  then show ?case by simp
next
  case (2 a as)
  then show ?case by simp
next
  case (3 d ds a as)
  from 3(2) obtain row rows where row: "py_index d a = Inr row"
    and rows: "pick ds as = Inr rows" and nd: "nd = row # rows"
    by (auto split: sum.splits)
  from 3(1) [OF row rows] row nd show ?case
    by (auto simp: nth_Cons split: nat.splits)
qed

lemma mean_weighted:
  assumes "length ce = n" "length ws = n"
  shows "mean (map (\<lambda>(c, x). c * x) (zip ce ws)) = (\<Sum>b<n. ws ! b * ce ! b) / real n"
proof -
  have "sum_list (map (\<lambda>(c, x). c * x) (zip ce ws)) = (\<Sum>b<n. (\<lambda>(c, x). c * x) (ce ! b, ws ! b))"
    using assms by (rule sum_list_zip_nth)
  then show ?thesis using assms by (simp add: mean_def mult.commute)
qed

lemma mean_unweighted:
  assumes "length ce = n"
  shows "mean (map (\<lambda>c. c * 1) ce) = (\<Sum>b<n. 1 * ce ! b) / real n"
proof -
  have "sum_list ce = (\<Sum>b = 0..<length ce. ce ! b)" by (rule sum_list_sum_nth)
  then show ?thesis using assms by (simp add: mean_def atLeast0LessThan)
qed

lemma cross_entropy_row_sum:
  assumes "length t = n" "length c = n"
  shows "cross_entropy_row t c = - (\<Sum>j<n. t ! j * ln (c ! j + 1 / 10 ^ 8))"
proof -
  have "sum_list (map (\<lambda>(tj, cj). tj * ln (cj + 1 / 10 ^ 8)) (zip t c))
          = (\<Sum>j<n. (\<lambda>(tj, cj). tj * ln (cj + 1 / 10 ^ 8)) (t ! j, c ! j))"
    using assms by (rule sum_list_zip_nth)
  then show ?thesis by (simp add: cross_entropy_row_def)
qed

lemma learn_Inr:
  assumes "learn net sync optim s g batch = Inr (loss, batch', s', g')"
  shows "\<exists>td s1 g1 out s2 curr.
           target_dist net (if target s \<and> cnt s mod freq s = 0
                            then s\<lparr>model_old := sync (model s) (model_old s)\<rparr> else s) g batch
             = Inr (td, s1, g1)
         \<and> forward net s1 g1 (batch\<lparr>weight := None\<rparr>) Model Obs = Inr (out, s2, g')
         \<and> pick (out_logits out) (act batch) = Inr curr
         \<and> same_shape td curr
         \<and> (case weight batch of None \<Rightarrow> True | Some ws \<Rightarrow> length ws = length td)
         \<and> loss = mean (case weight batch of
                          None \<Rightarrow> map (\<lambda>c. c * 1) (map (\<lambda>(t, c). cross_entropy_row t c) (zip td curr))
                        | Some ws \<Rightarrow> map (\<lambda>(c, x). c * x)
                                      (zip (map (\<lambda>(t, c). cross_entropy_row t c) (zip td curr)) ws))
         \<and> batch' = batch\<lparr>weight := Some (map (\<lambda>(t, c). cross_entropy_row t c) (zip td curr))\<rparr>
         \<and> s' = s2\<lparr>model := optim (model s2) batch td, cnt := cnt s2 + 1\<rparr>"
  using assms unfolding learn_def Let_def
  by (auto split: if_splits sum.splits prod.splits option.splits)

lemma learn_indexed:
  assumes le: "learn net sync optim s g batch = Inr (loss, batch', s', g')"
  shows "\<exists>td g1 curr ce.
           target_dist net (if target s \<and> cnt s mod freq s = 0
                            then s\<lparr>model_old := sync (model s) (model_old s)\<rparr> else s) g batch
             = Inr (td, if target s \<and> cnt s mod freq s = 0
                        then s\<lparr>model_old := sync (model s) (model_old s)\<rparr> else s, g1)
         \<and> pick (net (model s) (inner_obs (obs batch))) (act batch) = Inr curr
         \<and> length td = length (act batch) \<and> length curr = length (act batch)
         \<and> length ce = length (act batch)
         \<and> (\<forall>b<length (act batch).
               ce ! b = - (\<Sum>j<length (support s). td ! b ! j * ln (curr ! b ! j + 1 / 10 ^ 8)))
         \<and> loss = (\<Sum>b<length (act batch).
                      (case weight batch of None \<Rightarrow> 1 | Some ws \<Rightarrow> ws ! b) * ce ! b)
                    / real (length (act batch))
         \<and> batch' = batch\<lparr>weight := Some ce\<rparr>
         \<and> s' = (if target s \<and> cnt s mod freq s = 0
                  then s\<lparr>model_old := sync (model s) (model_old s)\<rparr> else s)
                   \<lparr>model := optim (model s) batch td, cnt := cnt s + 1\<rparr>"
proof -
  let ?s0 = "if target s \<and> cnt s mod freq s = 0
             then s\<lparr>model_old := sync (model s) (model_old s)\<rparr> else s"
  have f0: "model ?s0 = model s" "cnt ?s0 = cnt s" "support ?s0 = support s" by simp_all
  from learn_Inr [OF le] obtain td s1 g1 out s2 curr where
    td: "target_dist net ?s0 g batch = Inr (td, s1, g1)"
    and fw: "forward net s1 g1 (batch\<lparr>weight := None\<rparr>) Model Obs = Inr (out, s2, g')"
    and pk: "pick (out_logits out) (act batch) = Inr curr"
    and sh: "same_shape td curr"
    and wl: "case weight batch of None \<Rightarrow> True | Some ws \<Rightarrow> length ws = length td"
    and loss: "loss = mean (case weight batch of
                          None \<Rightarrow> map (\<lambda>c. c * 1) (map (\<lambda>(t, c). cross_entropy_row t c) (zip td curr))
                        | Some ws \<Rightarrow> map (\<lambda>(c, x). c * x)
                                      (zip (map (\<lambda>(t, c). cross_entropy_row t c) (zip td curr)) ws))"
    and b': "batch' = batch\<lparr>weight := Some (map (\<lambda>(t, c). cross_entropy_row t c) (zip td curr))\<rparr>"
    and s': "s' = s2\<lparr>model := optim (model s2) batch td, cnt := cnt s2 + 1\<rparr>"
    by blast
  let ?ce = "map (\<lambda>(t, c). cross_entropy_row t c) (zip td curr)"
  let ?B = "length (act batch)"
  from target_dist_rows [OF td] obtain nd where
    s1: "s1 = ?s0"
    and rows: "\<forall>b<length td.
                 length (returns batch ! b) = length (nd ! b)
               \<and> td ! b = project_row (delta_z ?s0) (support ?s0)
                            (map (\<lambda>r. clamp r (v_min ?s0) (v_max ?s0)) (returns batch ! b)) (nd ! b)"
    by blast
  have s2: "s2 = ?s0" using forward_state [OF fw] s1 by simp
  have lg: "out_logits out = net (model s) (inner_obs (obs batch))"
    using forward_logits [OF fw] s1 by (simp add: getattr_model_def batch_get_def)
  from pick_Inr [OF pk] have lc: "length curr = ?B" by simp
  from same_shape_nth [OF sh] lc have lt: "length td = ?B"
    and rl: "\<forall>i<?B. length (td ! i) = length (curr ! i)" by simp_all
  have lce: "length ?ce = ?B" using lt lc by simp
  have tdl: "length (td ! b) = length (support s)" if "b < ?B" for b
  proof -
    have "td ! b = project_row (delta_z ?s0) (support ?s0)
                     (map (\<lambda>r. clamp r (v_min ?s0) (v_max ?s0)) (returns batch ! b)) (nd ! b)"
      using rows that lt by simp
    then have "length (td ! b) = length (support ?s0)" by (simp only: project_row_length)
    then show ?thesis by (simp only: f0)
  qed
  have ce: "?ce ! b = - (\<Sum>j<length (support s). td ! b ! j * ln (curr ! b ! j + 1 / 10 ^ 8))"
    if b: "b < ?B" for b
  proof -
    have "?ce ! b = cross_entropy_row (td ! b) (curr ! b)" using b lt lc by simp
    also have "\<dots> = - (\<Sum>j<length (support s). td ! b ! j * ln (curr ! b ! j + 1 / 10 ^ 8))"
      using tdl [OF b] rl b by (intro cross_entropy_row_sum) simp_all
    finally show ?thesis .
  qed
  have lossv: "loss = (\<Sum>b<?B. (case weight batch of None \<Rightarrow> 1 | Some ws \<Rightarrow> ws ! b) * ?ce ! b)
                    / real ?B"
  proof (cases "weight batch")
    case None
    then show ?thesis using loss mean_unweighted [OF lce] by simp
  next
    case (Some ws)
    then have "length ws = ?B" using wl lt by simp
    from mean_weighted [OF lce this] Some loss show ?thesis by simp
  qed
  have sv: "s' = ?s0\<lparr>model := optim (model s) batch td, cnt := cnt s + 1\<rparr>"
    unfolding s' s2 by (simp only: f0)
  have tdv: "target_dist net ?s0 g batch = Inr (td, ?s0, g1)" using td s1 by simp
  have pkv: "pick (net (model s) (inner_obs (obs batch))) (act batch) = Inr curr"
    using pk lg by simp
  from tdv pkv lt lc lce ce lossv b' sv show ?thesis by blast
qed

subsection \<open>Inputs of the expected shapes are accepted\<close>

text \<open>
  The claims below are stated for the calls that return. These lemmas show which calls
  do: \<open>forward\<close>, \<open>_target_dist\<close> and \<open>learn\<close> return whenever the network answers
  with a tensor of shape \<open>[bsz, n_actions, num_atoms]\<close> with at least one action, the
  masks (if any) have shape \<open>[bsz, n_actions]\<close>, \<open>batch.returns\<close> has shape
  \<open>[bsz, num_atoms]\<close>, the actions of the batch are valid indices and the weights (if
  any) are one per sample.
\<close>

lemma map_err_returns:
  "(\<And>x. x \<in> set xs \<Longrightarrow> \<exists>y. f x = Inr y) \<Longrightarrow> \<exists>ys. map_err f xs = Inr ys"
proof (induction xs)
  case Nil
  then show ?case by simp
next
  case (Cons x xs)
  then obtain y ys where "f x = Inr y" "map_err f xs = Inr ys" by (meson list.set_intros)
  then show ?case by simp
qed

lemma torch_max_index_returns: "row \<noteq> [] \<Longrightarrow> \<exists>k. torch_max_index row = Inr k"
  by (cases row) (simp_all add: torch_max_index_def argmax_def)

lemma explore_returns:
  assumes "\<forall>qi\<in>set q. qi \<noteq> []"
    and "case m of None \<Rightarrow> True | Some mk \<Rightarrow> \<forall>k<length q. mk ! (i + k) \<noteq> []"
  shows "\<exists>a' g'. explore e m q i a g = Inr (a', g')"
  using assms
proof (induction q arbitrary: i a g)
  case Nil
  then show ?case by simp
next
  case (Cons qi q)
  have rest: "case m of None \<Rightarrow> True | Some mk \<Rightarrow> \<forall>k<length q. mk ! (Suc i + k) \<noteq> []"
    using Cons.prems(2) by (cases m) force+
  have all: "\<forall>x\<in>set q. x \<noteq> []" using Cons.prems(1) by simp
  show ?case
  proof (cases "shd g < e")
    case True
    let ?r = "stake (length qi) (stl g)"
    let ?r' = "case m of None \<Rightarrow> map Fin ?r | Some mk \<Rightarrow> mask_row (mk ! i) ?r"
    have "qi \<noteq> []" using Cons.prems(1) by simp
    moreover have "mk ! i \<noteq> []" if "m = Some mk" for mk
      using Cons.prems(2) that by force
    ultimately have "?r' \<noteq> []"
      by (cases m) (auto simp: mask_row_def)
    then obtain k where k: "argmax ?r' = Inr k" using argmax_nonempty by blast
    from Cons.IH [OF all rest, of "a[i := k]" "sdrop (length qi) (stl g)"] True k
    show ?thesis by (simp add: Let_def)
  next
    case False
    from Cons.IH [OF all rest, of a "stl g"] False show ?thesis by simp
  qed
qed

lemma q_values_matrix:
  "tensor3 B A N ds \<Longrightarrow> matrix B A (q_values zs ds)"
  by (auto simp: tensor3_def matrix_def q_values_def list_all_iff)

lemma matrix_same_shape: "matrix B A xs \<Longrightarrow> matrix B A ys \<Longrightarrow> same_shape xs ys"
  by (auto simp: matrix_def same_shape_def list_all_length)

lemma forward_returns:
  assumes t: "tensor3 B A (length (support s)) (net (getattr_model s mk) (inner_obs (batch_get batch ik)))"
    and A: "0 < A"
    and m: "case mask (batch_get batch ik) of None \<Rightarrow> True | Some m \<Rightarrow> matrix B A m"
  shows "\<exists>out g'. forward net s g batch mk ik = Inr (out, s, g')"
proof -
  let ?ds = "net (getattr_model s mk) (inner_obs (batch_get batch ik))"
  let ?q = "q_values (support s) ?ds"
  have shp: "list_all (list_all (\<lambda>d. length d = length (support s))) ?ds"
    using t by (auto simp: tensor3_def list_all_iff)
  have qm: "matrix B A ?q" using t by (rule q_values_matrix)
  have ne: "\<forall>qi\<in>set ?q. qi \<noteq> []" using qm A by (auto simp: matrix_def list_all_iff)
  obtain a0 where a0: "map_err torch_max_index ?q = Inr a0"
    using map_err_returns [of ?q torch_max_index] ne torch_max_index_returns by blast
  have "\<exists>a1. (case mask (batch_get batch ik) of
                 None \<Rightarrow> Inr a0
               | Some m \<Rightarrow> if \<not> same_shape m ?q then Inl IndexError
                           else map_err argmax (map (\<lambda>(mr, qr). mask_row mr qr) (zip m ?q)))
              = Inr a1"
  proof (cases "mask (batch_get batch ik)")
    case None
    then show ?thesis by simp
  next
    case (Some mm)
    then have mm: "matrix B A mm" using m by simp
    have ss: "same_shape mm ?q" using mm qm by (rule matrix_same_shape)
    have "\<exists>y. argmax x = Inr y" if "x \<in> set (map (\<lambda>(mr, qr). mask_row mr qr) (zip mm ?q))" for x
    proof -
      from that obtain mr qr where "(mr, qr) \<in> set (zip mm ?q)" and x: "x = mask_row mr qr"
        by auto
      then have "mr \<in> set mm" "qr \<in> set ?q" by (meson set_zip_leftD set_zip_rightD)+
      then have "length mr = A" "length qr = A" using mm qm by (auto simp: matrix_def list_all_iff)
      then have "x \<noteq> []" using A x by (auto simp: mask_row_def)
      then show ?thesis by (rule argmax_nonempty)
    qed
    then obtain a1 where
      "map_err argmax (map (\<lambda>(mr, qr). mask_row mr qr) (zip mm ?q)) = Inr a1"
      using map_err_returns by blast
    then show ?thesis using Some ss by simp
  qed
  then obtain a1 where a1: "(case mask (batch_get batch ik) of
                 None \<Rightarrow> Inr a0
               | Some m \<Rightarrow> if \<not> same_shape m ?q then Inl IndexError
                           else map_err argmax (map (\<lambda>(mr, qr). mask_row mr qr) (zip m ?q)))
              = Inr a1" by blast
  have mne: "case mask (batch_get batch ik) of None \<Rightarrow> True
             | Some mk \<Rightarrow> \<forall>k<length ?q. mk ! (0 + k) \<noteq> []"
  proof (cases "mask (batch_get batch ik)")
    case None
    then show ?thesis by simp
  next
    case (Some mm)
    then have "matrix B A mm" using m by simp
    then have "\<forall>k<length ?q. mm ! k \<noteq> []"
      using qm A by (auto simp: matrix_def list_all_length)
    then show ?thesis using Some by simp
  qed
  obtain a2 g2 where ex: "explore (eps s) (mask (batch_get batch ik)) ?q 0 a1 g = Inr (a2, g2)"
    using explore_returns [OF ne mne] by blast
  show ?thesis
    unfolding forward_def Let_def using shp a0 a1 ex by simp
qed

lemma explore_range:
  assumes "explore e m q i a g = Inr (a', g')"
    and "length a = i + length q"
    and "\<forall>b<length a. a ! b < n"
    and "\<forall>qi\<in>set q. length qi = n"
  shows "\<forall>b<length a. a' ! b < n"
  using assms
proof (induction q arbitrary: i a g)
  case Nil
  then show ?case by simp
next
  case (Cons qi q)
  have all: "\<forall>x\<in>set q. length x = n" using Cons.prems(4) by simp
  have qi: "length qi = n" using Cons.prems(4) by simp
  show ?case
  proof (cases "shd g < e")
    case True
    let ?r = "stake (length qi) (stl g)"
    let ?r' = "case m of None \<Rightarrow> map Fin ?r | Some mk \<Rightarrow> mask_row (mk ! i) ?r"
    from True Cons.prems(1) obtain k where
      k: "argmax ?r' = Inr k"
      and rest: "explore e m q (Suc i) (a[i := k]) (sdrop (length qi) (stl g)) = Inr (a', g')"
      by (auto simp: Let_def split: sum.splits)
    have "length ?r' \<le> n" using qi by (cases m) (simp_all add: mask_row_length)
    with argmax_Inr [OF k] have kn: "k < n" by simp
    have len: "length (a[i := k]) = Suc i + length q" using Cons.prems(2) by simp
    have inv: "\<forall>b<length (a[i := k]). a[i := k] ! b < n"
      using Cons.prems(2,3) kn by (auto simp: nth_list_update)
    from Cons.IH [OF rest len inv all] show ?thesis by simp
  next
    case False
    with Cons.prems(1) have rest: "explore e m q (Suc i) a (stl g) = Inr (a', g')" by simp
    have len: "length a = Suc i + length q" using Cons.prems(2) by simp
    from Cons.IH [OF rest len Cons.prems(3) all] show ?thesis .
  qed
qed

lemma forward_act_range:
  assumes fw: "forward net s g batch mk ik = Inr (out, s', g')"
    and t: "tensor3 B A N (out_logits out)"
  shows "length (out_act out) = B \<and> (\<forall>b<B. out_act out ! b < A)"
proof -
  let ?q = "q_values (support s) (out_logits out)"
  have qm: "matrix B A ?q" using t by (rule q_values_matrix)
  then have lq: "length ?q = B" and rq: "\<forall>qi\<in>set ?q. length qi = A"
    by (simp_all add: matrix_def list_all_iff)
  have len: "length (out_act out) = B"
    using forward_act_length [OF fw] t by (simp add: tensor3_def)
  from forward_Inr [OF fw] obtain a0 a1 where
    a0: "map_err torch_max_index ?q = Inr a0"
    and c: "case mask (batch_get batch ik) of
              None \<Rightarrow> a1 = a0
            | Some m \<Rightarrow> same_shape m ?q
                \<and> map_err argmax (map (\<lambda>(mr, qr). mask_row mr qr) (zip m ?q)) = Inr a1"
    and a2: "if \<not> updating s \<and> \<not> isclose (eps s) 0
               then explore (eps s) (mask (batch_get batch ik)) ?q 0 a1 g
                      = Inr (out_act out, g')
               else out_act out = a1 \<and> g' = g"
    by blast
  have r0: "length a0 = B \<and> (\<forall>b<B. a0 ! b < A)"
  proof -
    from map_err_Inr [OF a0] lq have l: "length a0 = B"
      and e: "\<forall>i<B. torch_max_index (?q ! i) = Inr (a0 ! i)" by simp_all
    have "a0 ! b < A" if "b < B" for b
      using torch_max_index_Inr [of "?q ! b" "a0 ! b"] e rq lq that by simp
    with l show ?thesis by simp
  qed
  have r1: "length a1 = B \<and> (\<forall>b<B. a1 ! b < A)"
  proof (cases "mask (batch_get batch ik)")
    case None
    then show ?thesis using c r0 by simp
  next
    case (Some m)
    then have sh: "same_shape m ?q"
      and me: "map_err argmax (map (\<lambda>(mr, qr). mask_row mr qr) (zip m ?q)) = Inr a1"
      using c by simp_all
    from same_shape_nth [OF sh] lq have lm: "length m = B" by simp
    from map_err_Inr [OF me] lm lq have l: "length a1 = B"
      and e: "\<forall>i<B. argmax (mask_row (m ! i) (?q ! i)) = Inr (a1 ! i)" by simp_all
    have "a1 ! b < A" if b: "b < B" for b
    proof -
      have "argmax (mask_row (m ! b) (?q ! b)) = Inr (a1 ! b)" using e b by simp
      from argmax_Inr [OF this] have "a1 ! b < length (?q ! b)" by (simp add: mask_row_length)
      then show ?thesis using rq lq b by simp
    qed
    with l show ?thesis by simp
  qed
  show ?thesis
  proof (cases "\<not> updating s \<and> \<not> isclose (eps s) 0")
    case True
    then have ex: "explore (eps s) (mask (batch_get batch ik)) ?q 0 a1 g = Inr (out_act out, g')"
      using a2 by simp
    have "\<forall>b<length a1. out_act out ! b < A"
      using ex
    proof (rule explore_range)
      show "length a1 = 0 + length ?q" using r1 lq by simp
      show "\<forall>b<length a1. a1 ! b < A" using r1 by simp
      show "\<forall>qi\<in>set ?q. length qi = A" by (rule rq)
    qed
    with len r1 show ?thesis by simp
  next
    case False
    then show ?thesis using a2 r1 by auto
  qed
qed

lemma pick_returns:
  assumes "length a \<le> length ds" and "\<forall>b<length a. a ! b < length (ds ! b)"
  shows "\<exists>nd. pick ds (map int a) = Inr nd"
  using assms
proof (induction a arbitrary: ds)
  case Nil
  then show ?case by simp
next
  case (Cons x a)
  then obtain d ds' where ds: "ds = d # ds'" by (cases ds) auto
  have x: "x < length d" using Cons.prems(2) ds by force
  have "\<forall>b<length a. a ! b < length (ds' ! b)" using Cons.prems(2) ds by force
  moreover have "length a \<le> length ds'" using Cons.prems(1) ds by simp
  ultimately obtain nd where "pick ds' (map int a) = Inr nd" using Cons.IH by blast
  then show ?case using ds x by (simp add: py_index_def)
qed

lemma tensor3_nth_length: "tensor3 B A N ds \<Longrightarrow> b < B \<Longrightarrow> length (ds ! b) = A"
  by (simp add: tensor3_def list_all_length)

lemma select_next_dist_returns:
  assumes t: "tensor3 B A (length (support s)) (net (model s) (inner_obs (obs_next batch)))"
    and t': "target s \<longrightarrow>
               tensor3 B A (length (support s)) (net (model_old s) (inner_obs (obs_next batch)))"
    and A: "0 < A"
    and m: "case mask (obs_next batch) of None \<Rightarrow> True | Some m \<Rightarrow> matrix B A m"
  shows "\<exists>nd g'. select_next_dist net s g batch = Inr (nd, s, g')
                \<and> matrix B (length (support s)) nd"
proof -
  let ?N = "length (support s)"
  let ?L = "net (if target s then model_old s else model s) (inner_obs (obs_next batch))"
  have tL: "tensor3 B A ?N ?L" using t t' by simp
  have t1: "tensor3 B A ?N (net (getattr_model s Model) (inner_obs (batch_get batch ObsNext)))"
    using t by (simp add: getattr_model_def batch_get_def)
  have m1: "case mask (batch_get batch ObsNext) of None \<Rightarrow> True | Some m \<Rightarrow> matrix B A m"
    using m by (simp add: batch_get_def)
  obtain b1 g1 where f1: "forward net s g batch Model ObsNext = Inr (b1, s, g1)"
    using forward_returns [where net = net and s = s and batch = batch and mk = Model
        and ik = ObsNext, OF t1 A m1] by blast
  have l1: "out_logits b1 = net (model s) (inner_obs (obs_next batch))"
    using forward_logits [OF f1] by (simp add: getattr_model_def batch_get_def)
  have ar: "length (out_act b1) = B \<and> (\<forall>b<B. out_act b1 ! b < A)"
    using f1 t unfolding l1 [symmetric] by (rule forward_act_range)
  have "\<exists>nd. pick ?L (map int (out_act b1)) = Inr nd"
  proof (rule pick_returns)
    show "length (out_act b1) \<le> length ?L" using ar tL by (simp add: tensor3_def)
    show "\<forall>b<length (out_act b1). out_act b1 ! b < length (?L ! b)"
      using ar tensor3_nth_length [OF tL] by simp
  qed
  then obtain nd where pk: "pick ?L (map int (out_act b1)) = Inr nd" by blast
  have sel: "\<exists>g2. select_next_dist net s g batch = Inr (nd, s, g2)"
  proof (cases "target s")
    case True
    then have t2: "tensor3 B A ?N (net (getattr_model s ModelOld) (inner_obs (batch_get batch ObsNext)))"
      using t' by (simp add: getattr_model_def batch_get_def)
    obtain b2 g2 where f2: "forward net s g1 batch ModelOld ObsNext = Inr (b2, s, g2)"
      using forward_returns [where net = net and s = s and batch = batch and mk = ModelOld
        and ik = ObsNext, OF t2 A m1] by blast
    have l2: "out_logits b2 = net (model_old s) (inner_obs (obs_next batch))"
      using forward_logits [OF f2] by (simp add: getattr_model_def batch_get_def)
    have "pick (out_logits b2) (map int (out_act b1)) = Inr nd" using pk True l2 by simp
    then show ?thesis unfolding select_next_dist_def using True f1 f2 by simp
  next
    case False
    then have "pick (out_logits b1) (map int (out_act b1)) = Inr nd" using pk l1 by simp
    then show ?thesis unfolding select_next_dist_def using False f1 by simp
  qed
  from pick_nat_Inr [OF pk] ar
  have lnd: "length nd = B" and ndb: "\<forall>b<B. nd ! b = ?L ! b ! (out_act b1 ! b)" by simp_all
  have ndm: "matrix B ?N nd"
    unfolding matrix_def list_all_length
  proof (intro conjI allI impI)
    show "length nd = B" by (rule lnd)
    fix b assume "b < length nd"
    then have b: "b < B" using lnd by simp
    have "out_act b1 ! b < length (?L ! b)" using ar b tensor3_nth_length [OF tL b] by simp
    then have "length (?L ! b ! (out_act b1 ! b)) = ?N"
      using tL b by (simp add: tensor3_def list_all_length)
    then show "length (nd ! b) = ?N" using ndb b by simp
  qed
  from sel ndm show ?thesis by blast
qed

lemma target_dist_returns:
  assumes t: "tensor3 B A (length (support s)) (net (model s) (inner_obs (obs_next batch)))"
    and t': "target s \<longrightarrow>
               tensor3 B A (length (support s)) (net (model_old s) (inner_obs (obs_next batch)))"
    and A: "0 < A"
    and m: "case mask (obs_next batch) of None \<Rightarrow> True | Some m \<Rightarrow> matrix B A m"
    and r: "matrix B (length (support s)) (returns batch)"
  shows "\<exists>td g'. target_dist net s g batch = Inr (td, s, g')"
proof -
  from select_next_dist_returns [where net = net and s = s and batch = batch, OF t t' A m] obtain nd g2 where
    sel: "select_next_dist net s g batch = Inr (nd, s, g2)"
    and ndm: "matrix B (length (support s)) nd"
    by blast
  have rm: "matrix B (length (support s))
              (map (map (\<lambda>r. clamp r (v_min s) (v_max s))) (returns batch))"
    using r by (simp add: matrix_def list_all_iff)
  have "same_shape (map (map (\<lambda>r. clamp r (v_min s) (v_max s))) (returns batch)) nd"
    using rm ndm by (rule matrix_same_shape)
  then show ?thesis
    unfolding target_dist_def Let_def using sel by simp
qed

lemma py_index_returns:
  "- int (length d) \<le> i \<Longrightarrow> i < int (length d) \<Longrightarrow> \<exists>r. py_index d i = Inr r \<and> r \<in> set d"
  by (auto simp: py_index_def)

lemma pick_int_returns:
  assumes "length as \<le> length ds"
    and "\<forall>b<length as. - int (length (ds ! b)) \<le> as ! b \<and> as ! b < int (length (ds ! b))"
  shows "\<exists>nd. pick ds as = Inr nd"
  using assms
proof (induction as arbitrary: ds)
  case Nil
  then show ?case by simp
next
  case (Cons x as)
  then obtain d ds' where ds: "ds = d # ds'" by (cases ds) auto
  have "- int (length d) \<le> x \<and> x < int (length d)" using Cons.prems(2) ds by force
  then obtain r where r: "py_index d x = Inr r" using py_index_returns by blast
  have "\<forall>b<length as. - int (length (ds' ! b)) \<le> as ! b \<and> as ! b < int (length (ds' ! b))"
    using Cons.prems(2) ds by force
  moreover have "length as \<le> length ds'" using Cons.prems(1) ds by simp
  ultimately obtain nd where "pick ds' as = Inr nd" using Cons.IH by blast
  then show ?case using ds r by simp
qed

lemma learn_returns:
  assumes fz: "\<not> (target s \<and> freq s = 0)"
    and tn: "\<forall>p. tensor3 B A (length (support s)) (net p (inner_obs (obs_next batch)))"
    and tc: "\<forall>p. tensor3 B A (length (support s)) (net p (inner_obs (obs batch)))"
    and A: "0 < A"
    and mn: "case mask (obs_next batch) of None \<Rightarrow> True | Some m \<Rightarrow> matrix B A m"
    and mc: "case mask (obs batch) of None \<Rightarrow> True | Some m \<Rightarrow> matrix B A m"
    and r: "matrix B (length (support s)) (returns batch)"
    and la: "length (act batch) = B"
    and ra: "\<forall>a\<in>set (act batch). - int A \<le> a \<and> a < int A"
    and w: "case weight batch of None \<Rightarrow> True | Some ws \<Rightarrow> length ws = B"
  shows "\<exists>loss batch' s' g'. learn net sync optim s g batch = Inr (loss, batch', s', g')"
proof -
  let ?s0 = "if target s \<and> cnt s mod freq s = 0
             then s\<lparr>model_old := sync (model s) (model_old s)\<rparr> else s"
  let ?N = "length (support s)"
  have sup: "support ?s0 = support s" by simp
  have t0: "tensor3 B A (length (support ?s0)) (net (model ?s0) (inner_obs (obs_next batch)))"
    using tn by (simp only: sup)
  have t0': "target ?s0 \<longrightarrow>
      tensor3 B A (length (support ?s0)) (net (model_old ?s0) (inner_obs (obs_next batch)))"
    using tn by (simp only: sup) simp
  have r0: "matrix B (length (support ?s0)) (returns batch)" using r by (simp only: sup)
  obtain td g1 where td: "target_dist net ?s0 g batch = Inr (td, ?s0, g1)"
    using target_dist_returns [where net = net and s = ?s0 and batch = batch, OF t0 t0' A mn r0]
    by blast
  from target_dist_rows [OF td] obtain nd where
    ltd: "length td = length (returns batch)"
    and rows: "\<forall>b<length td.
                 length (returns batch ! b) = length (nd ! b)
               \<and> td ! b = project_row (delta_z ?s0) (support ?s0)
                     (map (\<lambda>r. clamp r (v_min ?s0) (v_max ?s0)) (returns batch ! b)) (nd ! b)"
    by blast
  have tdm: "matrix B ?N td"
    unfolding matrix_def list_all_length
  proof (intro conjI allI impI)
    show "length td = B" using ltd r by (simp add: matrix_def)
    fix b assume "b < length td"
    then have "td ! b = project_row (delta_z ?s0) (support ?s0)
                     (map (\<lambda>r. clamp r (v_min ?s0) (v_max ?s0)) (returns batch ! b)) (nd ! b)"
      using rows by simp
    then have "length (td ! b) = length (support ?s0)" by (simp only: project_row_length)
    then show "length (td ! b) = ?N" by (simp only: sup)
  qed
  let ?b1 = "batch\<lparr>weight := None\<rparr>"
  have t1: "tensor3 B A (length (support ?s0))
              (net (getattr_model ?s0 Model) (inner_obs (batch_get ?b1 Obs)))"
    using tc by (simp add: batch_get_def)
  have m1: "case mask (batch_get ?b1 Obs) of None \<Rightarrow> True | Some m \<Rightarrow> matrix B A m"
    using mc by (simp add: batch_get_def)
  obtain out g2 where fw: "forward net ?s0 g1 ?b1 Model Obs = Inr (out, ?s0, g2)"
    using forward_returns [where net = net and s = ?s0 and batch = ?b1 and mk = Model
        and ik = Obs, OF t1 A m1] by blast
  have lg: "tensor3 B A ?N (out_logits out)"
    using forward_logits [OF fw] t1 by (simp only: sup)
  have "\<exists>curr. pick (out_logits out) (act ?b1) = Inr curr"
  proof (rule pick_int_returns)
    show "length (act ?b1) \<le> length (out_logits out)" using la lg by (simp add: tensor3_def)
    show "\<forall>b<length (act ?b1). - int (length (out_logits out ! b)) \<le> act ?b1 ! b
            \<and> act ?b1 ! b < int (length (out_logits out ! b))"
      using la ra tensor3_nth_length [OF lg] by simp
  qed
  then obtain curr where pk: "pick (out_logits out) (act ?b1) = Inr curr" by blast
  have cm: "matrix B ?N curr"
    unfolding matrix_def list_all_length
  proof (intro conjI allI impI)
    show lc: "length curr = B" using pick_Inr [OF pk] la by simp
    fix b assume "b < length curr"
    then have b: "b < B" using pick_Inr [OF pk] la by simp
    then have "py_index (out_logits out ! b) (act batch ! b) = Inr (curr ! b)"
      using pick_Inr [OF pk] la by simp
    then have "curr ! b \<in> set (out_logits out ! b)" by (rule py_index_mem)
    moreover have "list_all (\<lambda>d. length d = ?N) (out_logits out ! b)"
      using lg b by (simp add: tensor3_def list_all_length)
    ultimately show "length (curr ! b) = ?N" by (simp add: list_all_iff)
  qed
  have sh: "same_shape td curr" using tdm cm by (rule matrix_same_shape)
  have wl: "\<not> (case weight batch of None \<Rightarrow> False | Some ws \<Rightarrow> length ws \<noteq> length td)"
    using w tdm by (cases "weight batch") (simp_all add: matrix_def)
  show ?thesis
    unfolding learn_def Let_def using fz td fw pk sh wl by (simp del: split_paired_Ex)
qed

subsection \<open>The example inputs, evaluated\<close>

lemma ex_forward_greedy:
  "forward ex_net ex_policy g ex_batch Model Obs
     = Inr (\<lparr>out_logits = [[[1 / 2, 1 / 2], [1, 0]]], out_act = [0]\<rparr>, ex_policy, g)"
  by (simp add: forward_def ex_net_def ex_policy_def ex_batch_def batch_get_def
        getattr_model_def q_values_def torch_max_index_def argmax_def isclose_def)

lemma ex_forward_masked:
  "forward ex_net ex_policy g ex_batch_masked Model Obs
     = Inr (\<lparr>out_logits = [[[1 / 2, 1 / 2], [1, 0]]], out_act = [1]\<rparr>, ex_policy, g)"
  by (simp add: forward_def ex_net_def ex_policy_def ex_batch_def ex_batch_masked_def batch_get_def
        getattr_model_def q_values_def torch_max_index_def argmax_def isclose_def
        same_shape_def mask_row_def)

lemma ex_forward_explore_masked:
  "forward ex_net ex_policy_explore (sconst 0) ex_batch_masked Model Obs
     = Inr (\<lparr>out_logits = [[[1 / 2, 1 / 2], [1, 0]]], out_act = [1]\<rparr>, ex_policy_explore, sconst 0)"
  by (simp add: forward_def ex_net_def ex_policy_def ex_policy_explore_def ex_batch_def
        ex_batch_masked_def batch_get_def
        getattr_model_def q_values_def torch_max_index_def argmax_def isclose_def
        same_shape_def mask_row_def numeral_2_eq_2)

lemma ex_forward_next:
  "forward ex_net ex_policy g ex_batch Model ObsNext
     = Inr (\<lparr>out_logits = [[[1 / 2, 1 / 2], [1, 0]]], out_act = [0]\<rparr>, ex_policy, g)"
  by (simp add: forward_def ex_net_def ex_policy_def ex_batch_def batch_get_def
        getattr_model_def q_values_def torch_max_index_def argmax_def isclose_def)

lemma ex_select_next_dist:
  "select_next_dist ex_net ex_policy g ex_batch = Inr ([[1 / 2, 1 / 2]], ex_policy, g)"
proof -
  have "target ex_policy = False" by (simp add: ex_policy_def)
  then show ?thesis
    by (simp add: select_next_dist_def ex_forward_next py_index_def)
qed

lemma ex_target_dist:
  "target_dist ex_net ex_policy g ex_batch = Inr ([[3 / 8, 5 / 8]], ex_policy, g)"
proof -
  have f: "v_min ex_policy = 0" "v_max ex_policy = 1" "delta_z ex_policy = 1"
    "support ex_policy = [0, 1]" "returns ex_batch = [[1 / 4, 2]]"
    by (simp_all add: ex_policy_def ex_batch_def)
  show ?thesis
    by (simp add: target_dist_def ex_select_next_dist f same_shape_def project_row_def
          proj_coeff_def clamp_def)
qed

lemma ex_forward_next_target:
  "forward ex_net ex_policy_target g ex_batch Model ObsNext
     = Inr (\<lparr>out_logits = [[[1 / 2, 1 / 2], [1, 0]]], out_act = [0]\<rparr>, ex_policy_target, g)"
  by (simp add: forward_def ex_net_def ex_policy_def ex_policy_target_def ex_batch_def batch_get_def
        getattr_model_def q_values_def torch_max_index_def argmax_def isclose_def)

lemma ex_forward_next_old:
  "forward ex_net ex_policy_target g ex_batch ModelOld ObsNext
     = Inr (\<lparr>out_logits = [[[1 / 4, 3 / 4], [0, 1]]], out_act = [1]\<rparr>, ex_policy_target, g)"
  by (simp add: forward_def ex_net_def ex_policy_def ex_policy_target_def ex_batch_def batch_get_def
        getattr_model_def q_values_def torch_max_index_def argmax_def isclose_def)

lemma ex_select_next_dist_target:
  "select_next_dist ex_net ex_policy_target g ex_batch = Inr ([[1 / 4, 3 / 4]], ex_policy_target, g)"
proof -
  have "target ex_policy_target = True" by (simp add: ex_policy_target_def)
  then show ?thesis
    by (simp add: select_next_dist_def ex_forward_next_target ex_forward_next_old py_index_def)
qed

lemma ex_target_dist_target:
  "target_dist ex_net ex_policy_target g ex_batch = Inr ([[3 / 16, 13 / 16]], ex_policy_target, g)"
proof -
  have f: "v_min ex_policy_target = 0" "v_max ex_policy_target = 1" "delta_z ex_policy_target = 1"
    "support ex_policy_target = [0, 1]" "returns ex_batch = [[1 / 4, 2]]"
    by (simp_all add: ex_policy_def ex_policy_target_def ex_batch_def)
  show ?thesis
    by (simp add: target_dist_def ex_select_next_dist_target f same_shape_def project_row_def
          proj_coeff_def clamp_def)
qed

lemma ex_policy_target_grid_ok: "grid_ok ex_policy_target"
  using ex_policy_grid_ok by (simp add: grid_ok_def ex_policy_target_def)

lemma ex_forward_popped:
  "forward ex_net ex_policy g (ex_batch\<lparr>weight := None\<rparr>) Model Obs
     = Inr (\<lparr>out_logits = [[[1 / 2, 1 / 2], [1, 0]]], out_act = [0]\<rparr>, ex_policy, g)"
  by (simp add: forward_def ex_net_def ex_policy_def ex_batch_def batch_get_def
        getattr_model_def q_values_def torch_max_index_def argmax_def isclose_def)

lemma ex_cross_entropy:
  "cross_entropy_row [3 / 8, 5 / 8] [1 / 2, 1 / 2] = - ln (50000001 / 100000000)"
  by (simp add: cross_entropy_row_def algebra_simps)

lemma ex_learn:
  "learn ex_net ex_sync ex_optim ex_policy (sconst 0) ex_batch
     = Inr (- 2 * ln (50000001 / 100000000),
            ex_batch\<lparr>weight := Some [- ln (50000001 / 100000000)]\<rparr>,
            ex_policy\<lparr>model := 2, cnt := 1\<rparr>, sconst 0)"
proof -
  have f: "target ex_policy = False" "weight ex_batch = Some [2]" "act ex_batch = [0]"
    "model ex_policy = 0" "cnt ex_policy = 0"
    by (simp_all add: ex_policy_def ex_batch_def)
  show ?thesis
    by (simp add: learn_def f ex_target_dist ex_forward_popped py_index_def same_shape_def
          ex_cross_entropy mean_def ex_optim_def)
qed

subsection \<open>The default grid, evaluated\<close>














subsection \<open>Claims about the constructor\<close>

text \<open>
  C4, as the code has it. The constructor of the base class runs first (line 48), and a
  \<open>C51Policy\<close> cannot be constructed when it raises: its error is the constructor's.
  Once it has returned, constructing raises exactly when \<open>num_atoms \<le> 1\<close> or
  \<open>v_min \<ge> v_max\<close>; the error is then the failed assertion of the source, the one on
  \<open>num_atoms\<close> first.
\<close>

theorem init_error_conditions:
  "((\<exists>e. C51Policy_init base n vmin vmax = Inl e)
      \<longleftrightarrow> ((\<exists>e. base = Inl e) \<or> n \<le> 1 \<or> vmax \<le> vmin))
   \<and> (\<forall>e. base = Inl e \<longrightarrow> C51Policy_init base n vmin vmax = Inl e)
   \<and> (\<forall>b. base = Inr b \<and> n \<le> 1 \<longrightarrow> C51Policy_init base n vmin vmax
                    = Inl (AssertionError ''num_atoms should be greater than 1''))
   \<and> (\<forall>b. base = Inr b \<and> 1 < n \<and> vmax \<le> vmin \<longrightarrow> C51Policy_init base n vmin vmax
                    = Inl (AssertionError ''v_max should be larger than v_min''))"
  by (cases base) (auto simp: C51Policy_init_def)

theorem init_error_conditions_witness:
  "(\<exists>e. C51Policy_init (Inr ex_base) 1 (- 10) 10 = Inl e)
   \<and> \<not> (\<exists>e. C51Policy_init (Inr ex_base) 51 (- 10) 10 = Inl e)
   \<and> C51Policy_init (Inr ex_base) 51 10 10
        = Inl (AssertionError ''v_max should be larger than v_min'')
   \<and> (C51Policy_init (Inl ValueError) 51 (- 10) 10 :: error + nat c51_policy) = Inl ValueError"
  using init_error_conditions [of "Inr ex_base" 1 "- 10" 10]
        init_error_conditions [of "Inr ex_base" 51 "- 10" 10]
        init_error_conditions [of "Inr ex_base" 51 10 10]
        init_error_conditions [of "Inl ValueError :: error + nat dqn_policy" 51 "- 10" 10]
  by simp

text \<open>
  C4, as the claim words it (construction fails exactly when \<open>num_atoms \<le> 1\<close> or
  \<open>v_min \<ge> v_max\<close>, and there is no other error condition), fails when the base
  constructor raises: with the valid configuration \<open>num_atoms = 51\<close>, \<open>v_min = -10\<close>,
  \<open>v_max = 10\<close> the constructor raises the error of the base class.
\<close>

theorem init_error_counterexample:
  "(C51Policy_init (Inl RuntimeError) 51 (- 10) 10 :: error + nat c51_policy) = Inl RuntimeError
   \<and> (1 :: int) < 51 \<and> (- 10 :: real) < 10"
  by (simp add: C51Policy_init_def)




subsection \<open>Claims about the projection coefficients\<close>




subsection \<open>Claims about forward\<close>

text \<open>
  C3. When the observations carry no mask and exploration is off (\<open>updating\<close> is true
  or \<open>eps\<close> is close to \<open>0\<close>), \<open>forward\<close> returns for every sample \<open>b\<close> an action
  that maximises over the actions \<open>a\<close> the expectation
  \<open>\<Sum>j. dist[b, a, j] * support[j]\<close> of the network's distribution.
\<close>

theorem forward_greedy_argmax:
  assumes fw: "forward net s g batch mk ik = Inr (out, s', g')"
    and nomask: "mask (batch_get batch ik) = None"
    and greedy: "updating s \<or> isclose (eps s) 0"
  shows "out_logits out = net (getattr_model s mk) (inner_obs (batch_get batch ik))
       \<and> length (out_act out) = length (out_logits out)
       \<and> (\<forall>b<length (out_logits out).
             out_act out ! b < length (out_logits out ! b)
           \<and> (\<forall>a<length (out_logits out ! b).
                 (\<Sum>j<length (support s). out_logits out ! b ! a ! j * support s ! j)
               \<le> (\<Sum>j<length (support s).
                     out_logits out ! b ! (out_act out ! b) ! j * support s ! j)))"
proof -
  let ?ds = "out_logits out"
  let ?q = "q_values (support s) ?ds"
  from forward_Inr [OF fw] nomask greedy
  have lg: "?ds = net (getattr_model s mk) (inner_obs (batch_get batch ik))"
    and shp: "list_all (list_all (\<lambda>d. length d = length (support s))) ?ds"
    and a0: "map_err torch_max_index ?q = Inr (out_act out)"
    by auto
  have len: "length (out_act out) = length ?ds" using fw by (rule forward_act_length)
  have row: "out_act out ! b < length (?ds ! b)
           \<and> (\<forall>a<length (?ds ! b).
                 (\<Sum>j<length (support s). ?ds ! b ! a ! j * support s ! j)
               \<le> (\<Sum>j<length (support s). ?ds ! b ! (out_act out ! b) ! j * support s ! j))"
    if b: "b < length ?ds" for b
  proof -
    have "torch_max_index (?q ! b) = Inr (out_act out ! b)"
      using map_err_Inr [OF a0] b by (simp add: q_values_length)
    from torch_max_index_Inr [OF this] b
    have k: "out_act out ! b < length (?ds ! b)"
      and mx: "\<forall>a<length (?ds ! b). ?q ! b ! a \<le> ?q ! b ! (out_act out ! b)"
      by (simp_all add: q_values_row_length)
    have atoms: "length (?ds ! b ! a) = length (support s)" if "a < length (?ds ! b)" for a
      using shp b that by (simp add: list_all_length)
    have "(\<Sum>j<length (support s). ?ds ! b ! a ! j * support s ! j)
               \<le> (\<Sum>j<length (support s). ?ds ! b ! (out_act out ! b) ! j * support s ! j)"
      if a: "a < length (?ds ! b)" for a
    proof -
      have "?q ! b ! a \<le> ?q ! b ! (out_act out ! b)" using mx a by blast
      then show ?thesis
        unfolding q_values_nth [OF b a atoms [OF a]] q_values_nth [OF b k atoms [OF k]] .
    qed
    with k show ?thesis by blast
  qed
  from lg len row show ?thesis by blast
qed

theorem forward_greedy_argmax_witness:
  "forward ex_net ex_policy (sconst 0) ex_batch Model Obs
     = Inr (\<lparr>out_logits = [[[1 / 2, 1 / 2], [1, 0]]], out_act = [0]\<rparr>, ex_policy, sconst 0)
   \<and> mask (batch_get ex_batch Obs) = None
   \<and> (updating ex_policy \<or> isclose (eps ex_policy) 0)
   \<and> (\<Sum>j<length (support ex_policy). [[[1 / 2, 1 / 2], [1, 0]]] ! 0 ! 1 ! j * support ex_policy ! j)
       \<le> (\<Sum>j<length (support ex_policy).
              [[[1 / 2, 1 / 2], [1, 0]]] ! 0 ! ([0] ! 0) ! j * support ex_policy ! j)"
proof -
  have h1: "forward ex_net ex_policy (sconst 0) ex_batch Model Obs
     = Inr (\<lparr>out_logits = [[[1 / 2, 1 / 2], [1, 0]]], out_act = [0]\<rparr>, ex_policy, sconst 0)"
    by (rule ex_forward_greedy)
  have h2: "mask (batch_get ex_batch Obs) = None"
    by (simp add: ex_batch_def batch_get_def)
  have h3: "updating ex_policy \<or> isclose (eps ex_policy) 0"
    by (simp add: ex_policy_def isclose_def)
  have "(\<Sum>j<length (support ex_policy). [[[1 / 2, 1 / 2], [1, 0]]] ! 0 ! 1 ! j * support ex_policy ! j)
       \<le> (\<Sum>j<length (support ex_policy).
              [[[1 / 2, 1 / 2], [1, 0]]] ! 0 ! ([0] ! 0) ! j * support ex_policy ! j)"
    using forward_greedy_argmax [OF h1 h2 h3, THEN conjunct2, THEN conjunct2, rule_format, of 0,
        THEN conjunct2, rule_format, of 1]
    by simp
  with h1 h2 h3 show ?thesis by blast
qed

text \<open>
  C6. When the observations carry a mask, the action that \<open>forward\<close> returns for a
  sample with at least one allowed action is an allowed action, whether it comes from the
  masked argmax or from the exploration loop (no assumption is made on \<open>eps\<close> or
  \<open>updating\<close>).
\<close>

theorem forward_respects_mask:
  assumes "forward net s g batch mk ik = Inr (out, s', g')"
    and "mask (batch_get batch ik) = Some m"
    and "b < length (out_act out)"
    and "a < length (m ! b)" and "m ! b ! a"
  shows "out_act out ! b < length (m ! b) \<and> m ! b ! (out_act out ! b)"
  using forward_mask_allows [OF assms(1,2)] assms(3-5)
  unfolding mask_allows_def by blast

theorem forward_respects_mask_witness:
  "forward ex_net ex_policy (sconst 0) ex_batch_masked Model Obs
     = Inr (\<lparr>out_logits = [[[1 / 2, 1 / 2], [1, 0]]], out_act = [1]\<rparr>, ex_policy, sconst 0)
   \<and> forward ex_net ex_policy_explore (sconst 0) ex_batch_masked Model Obs
     = Inr (\<lparr>out_logits = [[[1 / 2, 1 / 2], [1, 0]]], out_act = [1]\<rparr>, ex_policy_explore,
            sconst 0)
   \<and> mask (batch_get ex_batch_masked Obs) = Some [[False, True]]
   \<and> [[False, True]] ! 0 ! ([1] ! 0)"
proof -
  have h1: "forward ex_net ex_policy (sconst 0) ex_batch_masked Model Obs
     = Inr (\<lparr>out_logits = [[[1 / 2, 1 / 2], [1, 0]]], out_act = [1]\<rparr>, ex_policy, sconst 0)"
    by (rule ex_forward_masked)
  have h1': "forward ex_net ex_policy_explore (sconst 0) ex_batch_masked Model Obs
     = Inr (\<lparr>out_logits = [[[1 / 2, 1 / 2], [1, 0]]], out_act = [1]\<rparr>, ex_policy_explore,
            sconst 0)"
    by (rule ex_forward_explore_masked)
  have h2: "mask (batch_get ex_batch_masked Obs) = Some [[False, True]]"
    by (simp add: ex_batch_masked_def ex_batch_def batch_get_def)
  have h3: "(0::nat) < length (out_act \<lparr>out_logits = [[[1 / 2, 1 / 2], [1, 0::real]]], out_act = [1]\<rparr>)"
    by simp
  have h4: "(1::nat) < length ([[False, True]] ! 0)" by simp
  have h5: "[[False, True]] ! 0 ! 1" by simp
  from forward_respects_mask [OF h1 h2 h3 h4 h5] forward_respects_mask [OF h1' h2 h3 h4 h5]
    h1 h1' h2
  show ?thesis by simp
qed

subsection \<open>Claims about the target distribution\<close>

text \<open>
  C1. Whenever \<open>_target_dist\<close> returns, entry \<open>[b, j]\<close> of its result is the sum over
  the source atoms \<open>i\<close> of \<open>clamp(1 - |T[b, i] - support[j]| / delta_z, 0, 1) * next_dist[b, i]\<close>,
  where \<open>T[b, i]\<close> is \<open>batch.returns[b, i]\<close> clamped to \<open>[v_min, v_max]\<close> and
  \<open>next_dist[b]\<close> is the distribution that the network (the target network when there
  is one) gives at \<open>obs_next\<close> to the action that \<open>forward\<close> selects there with the
  online network.
\<close>

theorem target_dist_is_projection:
  assumes td: "target_dist net s g batch = Inr (td, s', g')"
  shows "\<exists>out1 g1.
           forward net s g batch Model ObsNext = Inr (out1, s, g1)
         \<and> length td = length (out_act out1)
         \<and> (\<forall>b<length td. \<forall>j<length (support s).
               td ! b ! j
                 = (\<Sum>i<length (support s).
                      clamp (1 - \<bar>clamp (returns batch ! b ! i) (v_min s) (v_max s)
                                  - support s ! j\<bar> / delta_z s) 0 1
                      * net (if target s then model_old s else model s)
                          (inner_obs (obs_next batch)) ! b ! (out_act out1 ! b) ! i))"
proof -
  let ?L = "net (if target s then model_old s else model s) (inner_obs (obs_next batch))"
  from target_dist_rows [OF td] obtain nd where
    sel: "select_next_dist net s g batch = Inr (nd, s, g')"
    and lnd: "length nd = length (returns batch)" and ltd: "length td = length (returns batch)"
    and rows: "\<forall>b<length td.
                 length (returns batch ! b) = length (nd ! b)
               \<and> td ! b = project_row (delta_z s) (support s)
                            (map (\<lambda>r. clamp r (v_min s) (v_max s)) (returns batch ! b)) (nd ! b)"
    by blast
  from select_next_dist_Inr [OF sel] obtain out1 g1 where
    f1: "forward net s g batch Model ObsNext = Inr (out1, s, g1)"
    and la: "length nd = length (out_act out1)"
    and shp: "list_all (list_all (\<lambda>d. length d = length (support s))) ?L"
    and le: "length (out_act out1) \<le> length ?L"
    and sel_b: "\<forall>b<length (out_act out1).
                  out_act out1 ! b < length (?L ! b) \<and> nd ! b = ?L ! b ! (out_act out1 ! b)"
    by blast
  have entry: "td ! b ! j
                 = (\<Sum>i<length (support s).
                      clamp (1 - \<bar>clamp (returns batch ! b ! i) (v_min s) (v_max s)
                                  - support s ! j\<bar> / delta_z s) 0 1
                      * ?L ! b ! (out_act out1 ! b) ! i)"
    if b: "b < length td" and j: "j < length (support s)" for b j
  proof -
    have ba: "b < length (out_act out1)" using b ltd lnd la by simp
    then have bL: "b < length ?L" using le by simp
    have ab: "out_act out1 ! b < length (?L ! b)" and ndb: "nd ! b = ?L ! b ! (out_act out1 ! b)"
      using sel_b ba by simp_all
    have lnb: "length (nd ! b) = length (support s)"
      using shp bL ab ndb by (simp add: list_all_length)
    have lrb: "length (returns batch ! b) = length (support s)"
      using rows b lnb by simp
    have "td ! b ! j
            = project_row (delta_z s) (support s)
                (map (\<lambda>r. clamp r (v_min s) (v_max s)) (returns batch ! b)) (nd ! b) ! j"
      using rows b by simp
    also have "\<dots> = (\<Sum>i<length (support s).
                        proj_coeff (delta_z s)
                          (map (\<lambda>r. clamp r (v_min s) (v_max s)) (returns batch ! b) ! i)
                          (support s ! j) * nd ! b ! i)"
      using j lrb lnb by (intro project_row_nth) simp_all
    also have "\<dots> = (\<Sum>i<length (support s).
                      clamp (1 - \<bar>clamp (returns batch ! b ! i) (v_min s) (v_max s)
                                  - support s ! j\<bar> / delta_z s) 0 1
                      * ?L ! b ! (out_act out1 ! b) ! i)"
      using lrb ndb by (intro sum.cong) (simp_all add: proj_coeff_def)
    finally show ?thesis .
  qed
  from f1 ltd lnd la entry show ?thesis by auto
qed

theorem target_dist_is_projection_witness:
  "target_dist ex_net ex_policy_target (sconst 0) ex_batch
     = Inr ([[3 / 16, 13 / 16]], ex_policy_target, sconst 0)
   \<and> (\<exists>out1 g1. forward ex_net ex_policy_target (sconst 0) ex_batch Model ObsNext
                   = Inr (out1, ex_policy_target, g1)
        \<and> length [[3 / 16, 13 / 16 :: real]] = length (out_act out1))"
  using target_dist_is_projection [OF ex_target_dist_target [of "sconst 0"]]
        ex_target_dist_target [of "sconst 0"]
  by blast

text \<open>
  C7. \<open>_target_dist\<close> returns the policy it was given, every field unchanged, and a
  tensor with one row per sample of the batch and \<open>num_atoms\<close> entries per row.
\<close>

theorem target_dist_frame:
  assumes "grid_ok s" and td: "target_dist net s g batch = Inr (td, s', g')"
  shows "s' = s
       \<and> length td = length (returns batch)
       \<and> (\<forall>row\<in>set td. length row = nat (num_atoms s))"
proof -
  from target_dist_rows [OF td] obtain nd where
    s': "s' = s" and ltd: "length td = length (returns batch)"
    and rows: "\<forall>b<length td.
                 length (returns batch ! b) = length (nd ! b)
               \<and> td ! b = project_row (delta_z s) (support s)
                            (map (\<lambda>r. clamp r (v_min s) (v_max s)) (returns batch ! b)) (nd ! b)"
    by blast
  have "length row = nat (num_atoms s)" if "row \<in> set td" for row
  proof -
    from that obtain b where "b < length td" "row = td ! b" by (auto simp: in_set_conv_nth)
    then have "length row = length (support s)" using rows by (simp add: project_row_length)
    then show ?thesis using assms(1) by (simp add: grid_ok_length)
  qed
  with s' ltd show ?thesis by blast
qed

theorem target_dist_frame_witness:
  "grid_ok ex_policy
   \<and> target_dist ex_net ex_policy (sconst 0) ex_batch = Inr ([[3 / 8, 5 / 8]], ex_policy, sconst 0)
   \<and> length [[3 / 8, 5 / 8 :: real]] = length (returns ex_batch)
   \<and> length [3 / 8, 5 / 8 :: real] = nat (num_atoms ex_policy)"
  using target_dist_frame [OF ex_policy_grid_ok ex_target_dist [of "sconst 0"]]
        ex_policy_grid_ok ex_target_dist [of "sconst 0"]
  by simp




subsection \<open>Claims about learn\<close>

text \<open>
  C2, as the code has it. Whenever \<open>learn\<close> returns, its loss is the mean over the
  samples \<open>b\<close> of \<open>weight[b] * (- \<Sum>j. target_dist[b, j] * log(curr_dist[b, j] + 1e-8))\<close>,
  where \<open>weight\<close> is the entry of that name of the batch (\<open>1\<close> for every sample when
  the batch has none), \<open>target_dist\<close> is what \<open>_target_dist\<close> returns (after
  \<open>sync_weight\<close>, when it is due) and \<open>curr_dist[b]\<close> is the distribution that the
  online network gives at \<open>obs\<close> to the action \<open>batch.act[b]\<close>.
\<close>

theorem learn_loss_weighted_mean:
  assumes "learn net sync optim s g batch = Inr (loss, batch', s', g')"
  shows "\<exists>td g1 curr.
           target_dist net (if target s \<and> cnt s mod freq s = 0
                            then s\<lparr>model_old := sync (model s) (model_old s)\<rparr> else s) g batch
             = Inr (td, if target s \<and> cnt s mod freq s = 0
                        then s\<lparr>model_old := sync (model s) (model_old s)\<rparr> else s, g1)
         \<and> pick (net (model s) (inner_obs (obs batch))) (act batch) = Inr curr
         \<and> length td = length (act batch) \<and> length curr = length (act batch)
         \<and> loss = (\<Sum>b<length (act batch).
                      (case weight batch of None \<Rightarrow> 1 | Some ws \<Rightarrow> ws ! b)
                      * - (\<Sum>j<length (support s). td ! b ! j * ln (curr ! b ! j + 1 / 10 ^ 8)))
                    / real (length (act batch))"
proof -
  from learn_indexed [OF assms] obtain td g1 curr ce where
    a: "target_dist net (if target s \<and> cnt s mod freq s = 0
                            then s\<lparr>model_old := sync (model s) (model_old s)\<rparr> else s) g batch
             = Inr (td, if target s \<and> cnt s mod freq s = 0
                        then s\<lparr>model_old := sync (model s) (model_old s)\<rparr> else s, g1)"
    and b: "pick (net (model s) (inner_obs (obs batch))) (act batch) = Inr curr"
    and l: "length td = length (act batch)" "length curr = length (act batch)"
    and ce: "\<forall>b<length (act batch).
               ce ! b = - (\<Sum>j<length (support s). td ! b ! j * ln (curr ! b ! j + 1 / 10 ^ 8))"
    and loss: "loss = (\<Sum>b<length (act batch).
                      (case weight batch of None \<Rightarrow> 1 | Some ws \<Rightarrow> ws ! b) * ce ! b)
                    / real (length (act batch))"
    by blast
  have "(\<Sum>b<length (act batch). (case weight batch of None \<Rightarrow> 1 | Some ws \<Rightarrow> ws ! b) * ce ! b)
        = (\<Sum>b<length (act batch).
             (case weight batch of None \<Rightarrow> 1 | Some ws \<Rightarrow> ws ! b)
             * - (\<Sum>j<length (support s). td ! b ! j * ln (curr ! b ! j + 1 / 10 ^ 8)))"
    using ce by (intro sum.cong) simp_all
  with loss have "loss = (\<Sum>b<length (act batch).
                      (case weight batch of None \<Rightarrow> 1 | Some ws \<Rightarrow> ws ! b)
                      * - (\<Sum>j<length (support s). td ! b ! j * ln (curr ! b ! j + 1 / 10 ^ 8)))
                    / real (length (act batch))"
    by simp
  with a b l show ?thesis by (intro exI [of _ td] exI [of _ g1] exI [of _ curr]) simp
qed

theorem learn_loss_weighted_mean_witness:
  "learn ex_net ex_sync ex_optim ex_policy (sconst 0) ex_batch
     = Inr (- 2 * ln (50000001 / 100000000),
            ex_batch\<lparr>weight := Some [- ln (50000001 / 100000000)]\<rparr>,
            ex_policy\<lparr>model := 2, cnt := 1\<rparr>, sconst 0)
   \<and> (\<exists>td g1 curr.
         pick (ex_net (model ex_policy) (inner_obs (obs ex_batch))) (act ex_batch) = Inr curr
       \<and> - 2 * ln (50000001 / 100000000)
           = (\<Sum>b<length (act ex_batch).
                (case weight ex_batch of None \<Rightarrow> 1 | Some ws \<Rightarrow> ws ! b)
                * - (\<Sum>j<length (support ex_policy). td ! b ! j * ln (curr ! b ! j + 1 / 10 ^ 8)))
             / real (length (act ex_batch)))"
  using learn_loss_weighted_mean [OF ex_learn] ex_learn
  by blast

text \<open>
  C2, as the claim words it (the loss is the mean of the plain cross-entropy
  \<open>- \<Sum>j. target_dist[b, j] * log(curr_dist[b, j])\<close>), fails on a batch of one sample
  with weight \<open>2\<close>, target distribution \<open>[3/8, 5/8]\<close> and current distribution
  \<open>[1/2, 1/2]\<close>: the code returns \<open>- 2 * ln 0.50000001\<close>, the claim says
  \<open>- ln (1/2)\<close>.
\<close>

theorem learn_loss_counterexample:
  "learn ex_net ex_sync ex_optim ex_policy (sconst 0) ex_batch
     = Inr (- 2 * ln (50000001 / 100000000),
            ex_batch\<lparr>weight := Some [- ln (50000001 / 100000000)]\<rparr>,
            ex_policy\<lparr>model := 2, cnt := 1\<rparr>, sconst 0)
   \<and> target_dist ex_net ex_policy (sconst 0) ex_batch = Inr ([[3 / 8, 5 / 8]], ex_policy, sconst 0)
   \<and> pick (ex_net (model ex_policy) (inner_obs (obs ex_batch))) (act ex_batch)
       = Inr [[1 / 2, 1 / 2]]
   \<and> - 2 * ln (50000001 / 100000000) \<noteq> spec_loss [[3 / 8, 5 / 8]] [[1 / 2, 1 / 2]]"
proof -
  have pk: "pick (ex_net (model ex_policy) (inner_obs (obs ex_batch))) (act ex_batch)
       = Inr [[1 / 2, 1 / 2]]"
    by (simp add: ex_net_def ex_policy_def ex_batch_def py_index_def)
  have sl: "spec_loss [[3 / 8, 5 / 8]] [[1 / 2, 1 / 2]] = - ln (1 / 2)"
    by (simp add: spec_loss_def spec_cross_entropy_row_def mean_def algebra_simps)
  have ne: "- 2 * ln (50000001 / 100000000) \<noteq> - ln (1 / 2 :: real)"
  proof
    assume "- 2 * ln (50000001 / 100000000) = - ln (1 / 2 :: real)"
    then have "real 2 * ln (50000001 / 100000000) = ln (1 / 2 :: real)" by simp
    then have "ln ((50000001 / 100000000) ^ 2) = ln (1 / 2 :: real)"
      by (subst ln_realpow) simp_all
    then have "(50000001 / 100000000) ^ 2 = (1 / 2 :: real)"
      by (subst (asm) ln_inj_iff) simp_all
    then show False by (simp add: power2_eq_square)
  qed
  from ex_learn ex_target_dist [of "sconst 0"] pk ne sl show ?thesis by simp
qed

text \<open>
  C9. Whenever \<open>learn\<close> returns, the counter \<open>_cnt\<close> has grown by exactly one, the
  batch's \<open>weight\<close> is the vector of the per-sample cross-entropies (not multiplied by
  the weight that was popped), and the other keys of the batch are as they were.
\<close>

theorem learn_side_effects:
  assumes "learn net sync optim s g batch = Inr (loss, batch', s', g')"
  shows "cnt s' = cnt s + 1
       \<and> (\<exists>td g1 curr ce.
             target_dist net (if target s \<and> cnt s mod freq s = 0
                              then s\<lparr>model_old := sync (model s) (model_old s)\<rparr> else s) g batch
               = Inr (td, if target s \<and> cnt s mod freq s = 0
                          then s\<lparr>model_old := sync (model s) (model_old s)\<rparr> else s, g1)
           \<and> pick (net (model s) (inner_obs (obs batch))) (act batch) = Inr curr
           \<and> weight batch' = Some ce
           \<and> length ce = length (act batch)
           \<and> (\<forall>b<length (act batch).
                 ce ! b = - (\<Sum>j<length (support s). td ! b ! j * ln (curr ! b ! j + 1 / 10 ^ 8))))
       \<and> obs batch' = obs batch \<and> obs_next batch' = obs_next batch
       \<and> act batch' = act batch \<and> returns batch' = returns batch"
proof -
  from learn_indexed [OF assms] obtain td g1 curr ce where
    a: "target_dist net (if target s \<and> cnt s mod freq s = 0
                            then s\<lparr>model_old := sync (model s) (model_old s)\<rparr> else s) g batch
             = Inr (td, if target s \<and> cnt s mod freq s = 0
                        then s\<lparr>model_old := sync (model s) (model_old s)\<rparr> else s, g1)"
    and b: "pick (net (model s) (inner_obs (obs batch))) (act batch) = Inr curr"
    and l: "length ce = length (act batch)"
    and ce: "\<forall>b<length (act batch).
               ce ! b = - (\<Sum>j<length (support s). td ! b ! j * ln (curr ! b ! j + 1 / 10 ^ 8))"
    and b': "batch' = batch\<lparr>weight := Some ce\<rparr>"
    and s': "s' = (if target s \<and> cnt s mod freq s = 0
                  then s\<lparr>model_old := sync (model s) (model_old s)\<rparr> else s)
                   \<lparr>model := optim (model s) batch td, cnt := cnt s + 1\<rparr>"
    by blast
  have c: "cnt s' = cnt s + 1" unfolding s' by simp
  have w: "weight batch' = Some ce" and r: "obs batch' = obs batch" "obs_next batch' = obs_next batch"
    "act batch' = act batch" "returns batch' = returns batch"
    unfolding b' by simp_all
  from c a b w l ce r show ?thesis by blast
qed

theorem learn_side_effects_witness:
  "learn ex_net ex_sync ex_optim ex_policy (sconst 0) ex_batch
     = Inr (- 2 * ln (50000001 / 100000000),
            ex_batch\<lparr>weight := Some [- ln (50000001 / 100000000)]\<rparr>,
            ex_policy\<lparr>model := 2, cnt := 1\<rparr>, sconst 0)
   \<and> cnt (ex_policy\<lparr>model := 2, cnt := 1\<rparr>) = cnt ex_policy + 1
   \<and> weight ex_batch = Some [2]
   \<and> weight (ex_batch\<lparr>weight := Some [- ln (50000001 / 100000000)]\<rparr>)
       = Some [- ln (50000001 / 100000000)]"
proof -
  have "cnt (ex_policy\<lparr>model := 2, cnt := 1\<rparr>) = cnt ex_policy + 1"
    using learn_side_effects [OF ex_learn] by blast
  moreover have "weight ex_batch = Some [2]" by (simp add: ex_batch_def)
  ultimately show ?thesis using ex_learn by simp
qed

end
